theory Spec2Isabelle
  imports Main
begin

section \<open>Rate limiter (src/backend/server.js, class RateLimiter)\<close>

text \<open>
  Times are the integers returned by \<^verbatim>\<open>Date.now()\<close> (milliseconds). The limiter keeps,
  per client key, the list of admitted request times, the time of creation and a
  violation counter. The two caps are set once in the constructor and never changed.
\<close>

record rl_client =
  requests :: "int list"
  lastReset :: int
  violations :: nat

type_synonym rate_limiter = "string \<Rightarrow> rl_client option"

definition maxRequestsPerMinute :: int where
  "maxRequestsPerMinute = 60"

definition maxRequestsPerSecond :: int where
  "maxRequestsPerSecond = 10"

text \<open>
  The decision object. The first call for a key returns only \<^verbatim>\<open>allowed\<close> and
  \<^verbatim>\<open>remaining\<close>; an accepted call has no \<^verbatim>\<open>resetTime\<close>; absent properties are \<open>None\<close>.
\<close>

record rl_decision =
  allowed :: bool
  remaining :: int
  resetTime :: "int option"
  violations_seen :: "nat option"

definition clientKey_of :: "string \<Rightarrow> string \<Rightarrow> string" where
  "clientKey_of clientId endpoint = clientId @ ''_'' @ endpoint"

definition isAllowed :: "rate_limiter \<Rightarrow> int \<Rightarrow> string \<Rightarrow> string \<Rightarrow> rl_decision \<times> rate_limiter" where
  "isAllowed clients now clientId endpoint =
     (let clientKey = clientKey_of clientId endpoint in
      case clients clientKey of
        None \<Rightarrow>
          (\<lparr>allowed = True, remaining = maxRequestsPerMinute - 1,
            resetTime = None, violations_seen = None\<rparr>,
           clients(clientKey \<mapsto> \<lparr>requests = [now], lastReset = now, violations = 0\<rparr>))
      | Some client \<Rightarrow>
          (let oneMinuteAgo = now - 60000;
               pruned = filter (\<lambda>time. time > oneMinuteAgo) (requests client);
               oneSecondAgo = now - 1000;
               recentRequests = filter (\<lambda>time. time > oneSecondAgo) pruned
           in if int (length pruned) \<ge> maxRequestsPerMinute then
                (\<lparr>allowed = False, remaining = 0,
                  resetTime = Some (oneMinuteAgo + 60000),
                  violations_seen = Some (violations client + 1)\<rparr>,
                 clients(clientKey \<mapsto>
                   client\<lparr>requests := pruned, violations := violations client + 1\<rparr>))
              else if int (length recentRequests) \<ge> maxRequestsPerSecond then
                (\<lparr>allowed = False,
                  remaining = maxRequestsPerMinute - int (length pruned),
                  resetTime = Some (oneSecondAgo + 1000),
                  violations_seen = Some (violations client + 1)\<rparr>,
                 clients(clientKey \<mapsto>
                   client\<lparr>requests := pruned, violations := violations client + 1\<rparr>))
              else
                (\<lparr>allowed = True,
                  remaining = maxRequestsPerMinute - int (length (pruned @ [now])),
                  resetTime = None,
                  violations_seen = Some (violations client)\<rparr>,
                 clients(clientKey \<mapsto> client\<lparr>requests := pruned @ [now]\<rparr>))))"

text \<open>A client issuing several admission requests in a row, at the given times.\<close>

fun isAllowed_seq :: "rate_limiter \<Rightarrow> string \<Rightarrow> string \<Rightarrow> int list \<Rightarrow> rl_decision list \<times> rate_limiter" where
  "isAllowed_seq clients clientId endpoint [] = ([], clients)"
| "isAllowed_seq clients clientId endpoint (now # rest) =
     (let (d, clients') = isAllowed clients now clientId endpoint;
          (ds, clients'') = isAllowed_seq clients' clientId endpoint rest
      in (d # ds, clients''))"


section \<open>Connection registry and fan-out (WebSocketManager, broadcast)\<close>

text \<open>
  A socket object is identified by its handle (the key of the \<^verbatim>\<open>clients\<close> Map). Its
  \<^verbatim>\<open>readyState\<close> is read by the server; \<open>sendThrows\<close> says whether a call of
  \<^verbatim>\<open>ws.send\<close> on it raises (the case the \<^verbatim>\<open>catch\<close> blocks of the fan-out handle).
  \<open>ws_deviceId\<close> is the property \<^verbatim>\<open>ws.deviceId\<close> read by the message handler; the
  server never assigns it.
\<close>

datatype ready_state = CONNECTING | OPEN | CLOSING | CLOSED

record ws =
  handle :: nat
  readyState :: ready_state
  sendThrows :: bool
  ws_deviceId :: "string option"

record clientInfo =
  deviceId :: "string option"
  connectedAt :: int
  lastPing :: int
  isAlive :: bool

text \<open>The Map keeps insertion order; setting an existing key keeps its position.\<close>

type_synonym registry = "(ws \<times> clientInfo) list"

definition has_client :: "registry \<Rightarrow> ws \<Rightarrow> bool" where
  "has_client clients w = (handle w \<in> set (map (handle \<circ> fst) clients))"

definition addClient :: "int \<Rightarrow> ws \<Rightarrow> string option \<Rightarrow> registry \<Rightarrow> registry" where
  "addClient now w dev clients =
     (let info = \<lparr>deviceId = dev, connectedAt = now, lastPing = now, isAlive = True\<rparr>
      in if has_client clients w
         then map (\<lambda>(w', i). if handle w' = handle w then (w, info) else (w', i)) clients
         else clients @ [(w, info)])"

definition removeClient :: "ws \<Rightarrow> registry \<Rightarrow> registry" where
  "removeClient w clients = filter (\<lambda>(w', i). handle w' \<noteq> handle w) clients"

definition updateClientDevice :: "ws \<Rightarrow> string \<Rightarrow> registry \<Rightarrow> registry" where
  "updateClientDevice w dev clients =
     map (\<lambda>(w', i). if handle w' = handle w then (w', i\<lparr>deviceId := Some dev\<rparr>) else (w', i)) clients"

definition markClientAlive :: "int \<Rightarrow> ws \<Rightarrow> registry \<Rightarrow> registry" where
  "markClientAlive now w clients =
     map (\<lambda>(w', i). if handle w' = handle w then (w', i\<lparr>isAlive := True, lastPing := now\<rparr>) else (w', i)) clients"

text \<open>
  The state of one fan-out: the registry (a failed send removes the client), the two
  counters, and the frames handed to sockets so far, as pairs of socket handle and frame.
\<close>

record 'm fanout =
  f_clients :: registry
  successCount :: nat
  failureCount :: nat
  delivered :: "(nat \<times> 'm) list"

text \<open>The body of the promise executor in \<^verbatim>\<open>sendBatch\<close>, for one entry of the snapshot.\<close>

definition send_one :: "'m \<Rightarrow> string option \<Rightarrow> ws \<times> clientInfo \<Rightarrow> 'm fanout \<Rightarrow> 'm fanout" where
  "send_one message excludeDeviceId e st =
     (case e of (w, info) \<Rightarrow>
        if readyState w = OPEN \<and> deviceId info \<noteq> excludeDeviceId then
          (if sendThrows w
           then st\<lparr>failureCount := failureCount st + 1,
                   f_clients := removeClient w (f_clients st)\<rparr>
           else st\<lparr>successCount := successCount st + 1,
                   delivered := delivered st @ [(handle w, message)]\<rparr>)
        else st)"

definition sendBatch :: "'m \<Rightarrow> string option \<Rightarrow> (ws \<times> clientInfo) list \<Rightarrow> 'm fanout \<Rightarrow> 'm fanout" where
  "sendBatch message excludeDeviceId batch st =
     fold (send_one message excludeDeviceId) batch st"

definition batchSize :: nat where
  "batchSize = 50"

text \<open>
  \<^verbatim>\<open>processBatches\<close>: the loop over the snapshot in slices of \<open>batchSize\<close>. The pauses
  between batches are suspension points; this function is the loop when nothing else
  runs in between.
\<close>

function processBatches :: "'m \<Rightarrow> string option \<Rightarrow> (ws \<times> clientInfo) list \<Rightarrow> 'm fanout \<Rightarrow> 'm fanout" where
  "processBatches message excludeDeviceId clientArray st =
     (if clientArray = [] then st
      else processBatches message excludeDeviceId (drop batchSize clientArray)
             (sendBatch message excludeDeviceId (take batchSize clientArray) st))"
  by pat_completeness auto
termination
  by (relation "measure (\<lambda>(m, x, arr, st). length arr)") (auto simp: batchSize_def)

declare processBatches.simps [simp del]

text \<open>
  \<^verbatim>\<open>broadcast\<close> returns the counters as they stand when the first batch has been sent
  (the loop suspends at its first \<^verbatim>\<open>await\<close> and the function returns); the second
  component is the state once every batch has been processed.
\<close>

record broadcast_result =
  r_successCount :: nat
  r_failureCount :: nat

definition broadcast :: "'m \<Rightarrow> string option \<Rightarrow> registry \<Rightarrow> broadcast_result \<times> 'm fanout" where
  "broadcast message excludeDeviceId clients =
     (let clientArray = clients;
          st0 = \<lparr>f_clients = clients, successCount = 0, failureCount = 0, delivered = []\<rparr>;
          first = sendBatch message excludeDeviceId (take batchSize clientArray) st0
      in (\<lparr>r_successCount = successCount first, r_failureCount = failureCount first\<rparr>,
          processBatches message excludeDeviceId clientArray st0))"


section \<open>The record store (src/database/schema.sql)\<close>

text \<open>
  Rows of the four tables. Timestamps are integers (milliseconds); the decimal columns
  are integers counting hundredths; a nullable column is an option. Identifiers are the
  text of the uuid. Where two tables have a column of the same name, the later one
  carries a prefix.
\<close>

datatype sync_state = Pending | Synced | Conflict

record sale =
  sale_id :: string
  product :: string
  quantity :: int
  price :: int
  total :: int
  customer :: string
  notes_col :: "string option"
  payment_status :: string
  payment_method :: "string option"
  amount_received :: "int option"
  created_at :: int
  updated_at :: int
  version :: int
  device_id :: "string option"
  user_id :: string
  deleted_at :: "int option"
  is_deleted :: bool
  last_sync_at :: "int option"
  sync_status :: sync_state

record conflict_row =
  c_id :: string
  table_name :: string
  record_id :: string
  device_id_1 :: string
  device_id_2 :: string
  data_1 :: sale
  data_2 :: sale
  resolution_data :: "sale option"
  resolution_strategy :: "string option"
  resolved_at :: "int option"
  is_resolved :: bool
  c_created_at :: int

record sync_log_row =
  l_id :: string
  l_device_id :: string
  operation_type :: string
  l_table_name :: string
  l_record_id :: "string option"
  old_data :: "sale option"
  new_data :: "sale option"
  l_created_at :: int

record device_row =
  d_device_id :: string
  device_name :: "string option"
  device_type :: string
  last_seen_at :: int
  is_active :: bool

record db =
  sales :: "string \<Rightarrow> sale option"
  conflicts :: "conflict_row list"
  sync_log :: "sync_log_row list"
  devices :: "device_row list"

text \<open>The error objects produced by \<^verbatim>\<open>DatabaseManager.handleDatabaseError\<close>.\<close>

datatype db_error =
    DUPLICATE_KEY | FOREIGN_KEY_VIOLATION | NOT_NULL_VIOLATION | CHECK_VIOLATION
  | TABLE_NOT_FOUND | COLUMN_NOT_FOUND | CONNECTION_FAILURE | CONNECTION_NOT_EXIST
  | ADMIN_SHUTDOWN | TOO_MANY_CONNECTIONS | UNKNOWN_ERROR

fun error_status :: "db_error \<Rightarrow> nat" where
  "error_status DUPLICATE_KEY = 409"
| "error_status FOREIGN_KEY_VIOLATION = 400"
| "error_status NOT_NULL_VIOLATION = 400"
| "error_status CHECK_VIOLATION = 400"
| "error_status TABLE_NOT_FOUND = 500"
| "error_status COLUMN_NOT_FOUND = 500"
| "error_status CONNECTION_FAILURE = 503"
| "error_status CONNECTION_NOT_EXIST = 503"
| "error_status ADMIN_SHUTDOWN = 503"
| "error_status TOO_MANY_CONNECTIONS = 503"
| "error_status UNKNOWN_ERROR = 500"

text \<open>The CHECK constraints of table \<^verbatim>\<open>sales\<close> (a NULL passes a CHECK).\<close>

definition sales_checks :: "sale \<Rightarrow> bool" where
  "sales_checks r =
     (quantity r > 0 \<and> price r \<ge> 0 \<and> total r \<ge> 0
      \<and> payment_status r \<in> set [''pending'', ''partial'', ''paid'']
      \<and> (case amount_received r of None \<Rightarrow> True | Some a \<Rightarrow> a \<ge> 0))"

text \<open>SQL \<^verbatim>\<open>a != b\<close> under \<^verbatim>\<open>IF\<close>: a comparison with NULL is not true.\<close>

definition sql_ne :: "'a option \<Rightarrow> 'a option \<Rightarrow> bool" where
  "sql_ne a b = (case (a, b) of (Some x, Some y) \<Rightarrow> x \<noteq> y | _ \<Rightarrow> False)"

subsection \<open>Triggers on UPDATE of sales\<close>

definition update_updated_at_column :: "int \<Rightarrow> sale \<Rightarrow> sale \<Rightarrow> sale" where
  "update_updated_at_column now OLD NEW = NEW\<lparr>updated_at := now, version := version OLD + 1\<rparr>"

text \<open>
  \<^verbatim>\<open>detect_conflicts\<close>. The inserted row takes its id from \<^verbatim>\<open>uuid_generate_v4()\<close>, given
  here as the argument \<open>new_id\<close>; an id already present violates the primary key.
\<close>

definition detect_conflicts :: "int \<Rightarrow> string \<Rightarrow> sale \<Rightarrow> sale \<Rightarrow> conflict_row list \<Rightarrow> db_error + (sale \<times> conflict_row list)" where
  "detect_conflicts now new_id OLD NEW cs =
     (if version OLD \<noteq> version NEW - 1 \<and> sql_ne (device_id OLD) (device_id NEW) then
        (if new_id \<in> set (map c_id cs) then Inl DUPLICATE_KEY
         else Inr (NEW\<lparr>sync_status := Conflict\<rparr>,
                   cs @ [\<lparr>c_id = new_id, table_name = ''sales'', record_id = sale_id NEW,
                          device_id_1 = the (device_id OLD), device_id_2 = the (device_id NEW),
                          data_1 = OLD, data_2 = NEW,
                          resolution_data = None, resolution_strategy = None,
                          resolved_at = None, is_resolved = False, c_created_at = now\<rparr>]))
      else Inr (NEW, cs))"

text \<open>
  One row of an \<^verbatim>\<open>UPDATE sales\<close>: \<open>k\<close> is the id by which the WHERE clause found
  the row \<open>OLD\<close>, \<open>NEW\<close> is the row as the statement's SET clause leaves it. The two BEFORE UPDATE triggers fire in the order of their names,
  \<^verbatim>\<open>detect_sales_conflicts\<close> before \<^verbatim>\<open>update_sales_updated_at\<close>, each receiving the row
  returned by the one before; then the CHECK constraints are tested and the row stored.
  An error leaves the store as it was.
\<close>

definition sales_update_row :: "int \<Rightarrow> string \<Rightarrow> string \<Rightarrow> sale \<Rightarrow> sale \<Rightarrow> db \<Rightarrow> db_error + (sale \<times> db)" where
  "sales_update_row now new_id k OLD NEW d =
     (case detect_conflicts now new_id OLD NEW (conflicts d) of
        Inl e \<Rightarrow> Inl e
      | Inr (NEW1, cs) \<Rightarrow>
          (let NEW2 = update_updated_at_column now OLD NEW1
           in if \<not> sales_checks NEW2 then Inl CHECK_VIOLATION
              else Inr (NEW2, d\<lparr>sales := (sales d)(k \<mapsto> NEW2), conflicts := cs\<rparr>)))"

subsection \<open>Stored functions\<close>

definition register_device :: "int \<Rightarrow> string \<Rightarrow> string option \<Rightarrow> string \<Rightarrow> device_row list \<Rightarrow> device_row list" where
  "register_device now p_device_id p_device_name p_device_type ds =
     (if p_device_id \<in> set (map d_device_id ds)
      then map (\<lambda>r. if d_device_id r = p_device_id
                     then r\<lparr>last_seen_at := now, is_active := True\<rparr> else r) ds
      else ds @ [\<lparr>d_device_id = p_device_id, device_name = p_device_name,
                   device_type = p_device_type, last_seen_at = now, is_active = True\<rparr>])"

definition soft_delete_sale :: "int \<Rightarrow> string \<Rightarrow> string \<Rightarrow> string \<Rightarrow> db \<Rightarrow> db_error + (bool \<times> db)" where
  "soft_delete_sale now new_id p_sale_id p_device_id d =
     (case sales d p_sale_id of
        None \<Rightarrow> Inr (False, d)
      | Some OLD \<Rightarrow>
          if is_deleted OLD then Inr (False, d)
          else (case sales_update_row now new_id p_sale_id OLD
                       (OLD\<lparr>is_deleted := True, deleted_at := Some now,
                            device_id := Some p_device_id, sync_status := Pending\<rparr>) d of
                  Inl e \<Rightarrow> Inl e
                | Inr (NEW, d') \<Rightarrow> Inr (True, d')))"

definition latest_of :: "conflict_row \<Rightarrow> sale" where
  "latest_of conflict_record =
     (if updated_at (data_1 conflict_record) > updated_at (data_2 conflict_record)
      then data_1 conflict_record else data_2 conflict_record)"

definition resolve_conflict_last_write_wins :: "int \<Rightarrow> string \<Rightarrow> string \<Rightarrow> db \<Rightarrow> db_error + (bool \<times> db)" where
  "resolve_conflict_last_write_wins now new_id p_conflict_id d =
     (case find (\<lambda>c. c_id c = p_conflict_id) (conflicts d) of
        None \<Rightarrow> Inr (False, d)
      | Some conflict_record \<Rightarrow>
          (let latest_data = latest_of conflict_record;
               d1 = d\<lparr>conflicts :=
                      map (\<lambda>c. if c_id c = p_conflict_id
                                then c\<lparr>resolution_data := Some latest_data,
                                       resolution_strategy := Some ''last_write_wins'',
                                       resolved_at := Some now,
                                       is_resolved := True\<rparr>
                                else c) (conflicts d)\<rparr>
           in case sales d1 (record_id conflict_record) of
                None \<Rightarrow> Inr (True, d1)
              | Some OLD \<Rightarrow>
                  (case sales_update_row now new_id (record_id conflict_record) OLD
                          (OLD\<lparr>product := product latest_data,
                               quantity := quantity latest_data,
                               price := price latest_data,
                               total := total latest_data,
                               customer := customer latest_data,
                               notes_col := notes_col latest_data,
                               payment_status := payment_status latest_data,
                               payment_method := payment_method latest_data,
                               amount_received := amount_received latest_data,
                               sync_status := Synced\<rparr>) d1 of
                     Inl e \<Rightarrow> Inl e
                   | Inr (NEW, d2) \<Rightarrow> Inr (True, d2))))"


section \<open>Server state, frames and responses\<close>

text \<open>JavaScript truthiness of an optional string and of an optional number.\<close>

definition truthy_str :: "string option \<Rightarrow> bool" where
  "truthy_str v = (case v of None \<Rightarrow> False | Some x \<Rightarrow> x \<noteq> [])"

definition truthy_num :: "int option \<Rightarrow> bool" where
  "truthy_num v = (case v of None \<Rightarrow> False | Some n \<Rightarrow> n \<noteq> 0)"

text \<open>
  \<^verbatim>\<open>isNaN(parseInt(id))\<close> on ASCII text: leading white space is skipped, one sign is
  accepted, a prefix \<^verbatim>\<open>0x\<close> selects radix 16; the result is NaN when no digit follows.
\<close>

definition js_space :: "char \<Rightarrow> bool" where
  "js_space c = (c \<in> set [CHR 0x09, CHR 0x0A, CHR 0x0B, CHR 0x0C, CHR 0x0D, CHR 0x20])"

definition parseInt_isNaN :: "string \<Rightarrow> bool" where
  "parseInt_isNaN s =
     (let s1 = dropWhile js_space s;
          s2 = (case s1 of [] \<Rightarrow> []
                | c # r \<Rightarrow> if c = CHR ''+'' \<or> c = CHR ''-'' then r else s1)
      in case s2 of
           [] \<Rightarrow> True
         | c # r \<Rightarrow>
             (if c = CHR ''0'' \<and> (case r of [] \<Rightarrow> False | x # _ \<Rightarrow> x = CHR ''x'' \<or> x = CHR ''X'')
              then (case tl r of [] \<Rightarrow> True | h # _ \<Rightarrow> h \<notin> set ''0123456789abcdefABCDEF'')
              else c \<notin> set ''0123456789''))"

datatype sync_data = Row sale | Removed string string

record client_stats =
  stat_total :: nat
  withDeviceId :: nat
  byDevice :: "(string \<times> nat) list"

text \<open>
  Frames sent over the real-time channel (their time stamps are left out):
  \<open>Data_sync operation data deviceId syncLogId\<close> and
  \<open>Rate_limit_exceeded resetTime violations\<close>; \<open>Error_frame\<close> carries the code.
\<close>

datatype frame =
    Connection_established int
  | Rate_limit_exceeded "int option" "nat option"
  | Device_registered string
  | Device_connected string "string option"
  | Device_disconnected string
  | Pong
  | Stats_response client_stats
  | Error_frame string
  | Data_sync string sync_data string "string option"

record world =
  w_db :: db
  w_clients :: registry
  w_limiter :: rate_limiter
  w_sent :: "(nat \<times> frame) list"

text \<open>A fan-out started by a handler, run to its end: the frames go out on the wire.\<close>

definition broadcast_w :: "frame \<Rightarrow> string option \<Rightarrow> world \<Rightarrow> broadcast_result \<times> world" where
  "broadcast_w message excludeDeviceId w =
     (let (res, st) = broadcast message excludeDeviceId (w_clients w)
      in (res, w\<lparr>w_clients := f_clients st, w_sent := w_sent w @ delivered st\<rparr>))"

text \<open>
  HTTP responses: \<open>Created\<close> is 201, \<open>Updated\<close> and \<open>Deleted\<close> are 200, each with the
  \<^verbatim>\<open>sync\<close> object (broadcasted, clientsNotified); \<open>Rejected status code\<close> is a 400 or 404;
  \<open>Version_conflict current_version provided_version current_data\<close> is the 409;
  \<open>Store_failure status code\<close> is what a \<^verbatim>\<open>catch\<close> block answers, its status absent
  where the handler reads the missing property \<^verbatim>\<open>statusCode\<close>.
\<close>

datatype sync_result = Create_result sale | Delete_result bool

datatype response =
    Created sale bool nat
  | Updated sale bool nat
  | Deleted string bool nat
  | Rejected nat string
  | Version_conflict int int sale
  | Store_failure "nat option" string
  | Conflict_resolved
  | Synced_count nat
  | Bulk_results "sync_result list"

fun http_status :: "response \<Rightarrow> nat option" where
  "http_status (Created _ _ _) = Some 201"
| "http_status (Updated _ _ _) = Some 200"
| "http_status (Deleted _ _ _) = Some 200"
| "http_status (Rejected st _) = Some st"
| "http_status (Version_conflict _ _ _) = Some 409"
| "http_status (Store_failure st _) = st"
| "http_status Conflict_resolved = Some 200"
| "http_status (Synced_count _) = Some 200"
| "http_status (Bulk_results _) = Some 200"

fun error_code :: "db_error \<Rightarrow> string" where
  "error_code DUPLICATE_KEY = ''DUPLICATE_KEY''"
| "error_code FOREIGN_KEY_VIOLATION = ''FOREIGN_KEY_VIOLATION''"
| "error_code NOT_NULL_VIOLATION = ''NOT_NULL_VIOLATION''"
| "error_code CHECK_VIOLATION = ''CHECK_VIOLATION''"
| "error_code TABLE_NOT_FOUND = ''TABLE_NOT_FOUND''"
| "error_code COLUMN_NOT_FOUND = ''COLUMN_NOT_FOUND''"
| "error_code CONNECTION_FAILURE = ''CONNECTION_FAILURE''"
| "error_code CONNECTION_NOT_EXIST = ''CONNECTION_NOT_EXIST''"
| "error_code ADMIN_SHUTDOWN = ''ADMIN_SHUTDOWN''"
| "error_code TOO_MANY_CONNECTIONS = ''TOO_MANY_CONNECTIONS''"
| "error_code UNKNOWN_ERROR = ''UNKNOWN_ERROR''"

text \<open>
  What a handler takes from its environment: the clock, two fresh uuids (the first for
  the row the statement or its trigger inserts, the second for the audit log row), and
  whether the query that appends the audit log row fails before reaching the tables
  (no connection from the pool, connection lost).
\<close>

record env =
  e_now :: int
  e_uuid :: string
  e_log_uuid :: string
  e_log_fault :: bool

section \<open>Audit log (logSyncOperation)\<close>

text \<open>
  The INSERT into \<^verbatim>\<open>sync_log\<close> with the constraints of the table: the CHECK on
  \<^verbatim>\<open>operation_type\<close>, the foreign key to \<^verbatim>\<open>devices\<close>, the primary key.
\<close>

definition sync_log_insert :: "env \<Rightarrow> string \<Rightarrow> string \<Rightarrow> string \<Rightarrow> string option \<Rightarrow> sale option \<Rightarrow> sale option \<Rightarrow> db \<Rightarrow> db_error + (sync_log_row \<times> db)" where
  "sync_log_insert e device operationType tableName recordId oldData newData d =
     (if e_log_fault e then Inl CONNECTION_FAILURE
      else if operationType \<notin> set [''create'', ''update'', ''delete'', ''sync''] then Inl CHECK_VIOLATION
      else if e_log_uuid e \<in> set (map l_id (sync_log d)) then Inl DUPLICATE_KEY
      else if device \<notin> set (map d_device_id (devices d)) then Inl FOREIGN_KEY_VIOLATION
      else (let row = \<lparr>l_id = e_log_uuid e, l_device_id = device,
                        operation_type = operationType, l_table_name = tableName,
                        l_record_id = recordId, old_data = oldData, new_data = newData,
                        l_created_at = e_now e\<rparr>
            in Inr (row, d\<lparr>sync_log := sync_log d @ [row]\<rparr>)))"

text \<open>The \<^verbatim>\<open>try\<close>/\<^verbatim>\<open>catch\<close> of \<^verbatim>\<open>logSyncOperation\<close>: an error becomes \<^verbatim>\<open>null\<close>.\<close>

definition logSyncOperation :: "env \<Rightarrow> string \<Rightarrow> string \<Rightarrow> string \<Rightarrow> string option \<Rightarrow> sale option \<Rightarrow> sale option \<Rightarrow> db \<Rightarrow> sync_log_row option \<times> db" where
  "logSyncOperation e device operationType tableName recordId oldData newData d =
     (case sync_log_insert e device operationType tableName recordId oldData newData d of
        Inl error \<Rightarrow> (None, d)
      | Inr (row, d') \<Rightarrow> (Some row, d'))"

definition registerDevice :: "int \<Rightarrow> string \<Rightarrow> string option \<Rightarrow> string option \<Rightarrow> db \<Rightarrow> db" where
  "registerDevice now device deviceName deviceType d =
     d\<lparr>devices := register_device now device deviceName
                     (case deviceType of None \<Rightarrow> ''unknown'' | Some t \<Rightarrow> t) (devices d)\<rparr>"

section \<open>Mutation handlers (routes of src/backend/server.js)\<close>

text \<open>
  Request bodies: a property that is absent is \<open>None\<close>. The route handlers are modelled
  without the rate-limiting middleware in front of them, which is \<open>isAllowed\<close> on the
  caller's address and the path.
\<close>

record post_body =
  n_product :: "string option"
  n_quantity :: "int option"
  n_price :: "int option"
  n_total :: "int option"
  n_customer :: "string option"
  n_notes :: "string option"
  n_payment_status :: "string option"
  n_payment_method :: "string option"
  n_amount_received :: "int option"
  n_device_id :: "string option"

record put_body =
  u_product :: "string option"
  u_quantity :: "int option"
  u_price :: "int option"
  u_total :: "int option"
  u_customer :: "string option"
  u_notes :: "string option"
  u_payment_status :: "string option"
  u_payment_method :: "string option"
  u_amount_received :: "int option"
  u_device_id :: "string option"
  u_version :: "int option"

text \<open>\<^verbatim>\<open>INSERT INTO sales\<close>: the column defaults, the CHECK constraints, the primary key.\<close>

definition new_sale_row :: "int \<Rightarrow> string \<Rightarrow> string \<Rightarrow> int \<Rightarrow> int \<Rightarrow> int \<Rightarrow> string \<Rightarrow> string option \<Rightarrow> string \<Rightarrow> string option \<Rightarrow> int option \<Rightarrow> string option \<Rightarrow> sale" where
  "new_sale_row now new_id pname qty pr tot cust nts pstatus pmethod received dev =
     \<lparr>sale_id = new_id, product = pname, quantity = qty, price = pr, total = tot,
      customer = cust, notes_col = nts, payment_status = pstatus, payment_method = pmethod,
      amount_received = received, created_at = now, updated_at = now, version = 1,
      device_id = dev, user_id = ''anonymous'', deleted_at = None, is_deleted = False,
      last_sync_at = None, sync_status = Pending\<rparr>"

definition sales_insert :: "sale \<Rightarrow> db \<Rightarrow> db_error + (sale \<times> db)" where
  "sales_insert row d =
     (if \<not> sales_checks row then Inl CHECK_VIOLATION
      else if sales d (sale_id row) \<noteq> None then Inl DUPLICATE_KEY
      else Inr (row, d\<lparr>sales := (sales d)(sale_id row \<mapsto> row)\<rparr>))"

subsection \<open>POST /api/sales\<close>

definition post_sale :: "env \<Rightarrow> post_body \<Rightarrow> world \<Rightarrow> response \<times> world" where
  "post_sale e body w =
     (if \<not> truthy_num (n_quantity body) \<or> \<not> truthy_num (n_price body)
         \<or> \<not> truthy_num (n_total body) \<or> \<not> truthy_str (n_customer body)
         \<or> \<not> truthy_str (n_device_id body)
      then (Rejected 400 ''VALIDATION_ERROR'', w)
      else if the (n_quantity body) \<le> 0 then (Rejected 400 ''INVALID_QUANTITY'', w)
      else if the (n_price body) \<le> 0 then (Rejected 400 ''INVALID_PRICE'', w)
      else if the (n_total body) \<le> 0 then (Rejected 400 ''INVALID_TOTAL'', w)
      else
        (let dev = the (n_device_id body);
             d1 = registerDevice (e_now e) dev None None (w_db w);
             row = new_sale_row (e_now e) (e_uuid e)
                     (case n_product body of None \<Rightarrow> ''Bananas'' | Some x \<Rightarrow> x)
                     (the (n_quantity body)) (the (n_price body)) (the (n_total body))
                     (the (n_customer body))
                     (case n_notes body of None \<Rightarrow> Some [] | Some x \<Rightarrow> Some x)
                     (case n_payment_status body of None \<Rightarrow> ''pending'' | Some x \<Rightarrow> x)
                     (case n_payment_method body of None \<Rightarrow> Some [] | Some x \<Rightarrow> Some x)
                     (case n_amount_received body of None \<Rightarrow> Some 0 | Some x \<Rightarrow> Some x)
                     (Some dev)
         in case sales_insert row d1 of
              Inl error \<Rightarrow> (Store_failure (Some (error_status error)) (error_code error), w\<lparr>w_db := d1\<rparr>)
            | Inr (newSale, d2) \<Rightarrow>
                (let (syncLog, d3) = logSyncOperation e dev ''CREATE'' ''sales''
                                       (Some (sale_id newSale)) None (Some newSale) d2;
                     (broadcastResult, w') =
                        broadcast_w (Data_sync ''CREATE'' (Row newSale) dev (map_option l_id syncLog))
                          (Some dev) (w\<lparr>w_db := d3\<rparr>)
                 in (Created newSale (r_successCount broadcastResult > 0)
                       (r_successCount broadcastResult), w'))))"

subsection \<open>PUT /api/sales/:id\<close>

text \<open>
  The handler up to its second store call: request validation, the SELECT of the
  current row (its own call of \<^verbatim>\<open>executeQuery\<close>), the version check and the validation of
  the numeric fields. It answers, or goes on with the row it has read.
\<close>

definition put_check :: "string \<Rightarrow> put_body \<Rightarrow> db \<Rightarrow> response + sale" where
  "put_check ident body d =
     (if \<not> truthy_str (u_device_id body) then Inl (Rejected 400 ''MISSING_DEVICE_ID'')
      else if ident = [] \<or> parseInt_isNaN ident then Inl (Rejected 400 ''INVALID_SALE_ID'')
      else case sales d ident of
             None \<Rightarrow> Inl (Rejected 404 ''SALE_NOT_FOUND'')
           | Some currentSale \<Rightarrow>
               if is_deleted currentSale then Inl (Rejected 404 ''SALE_NOT_FOUND'')
               else if truthy_num (u_version body) \<and> version currentSale \<noteq> the (u_version body)
               then Inl (Version_conflict (version currentSale) (the (u_version body)) currentSale)
               else if (case u_quantity body of None \<Rightarrow> False | Some q \<Rightarrow> q \<le> 0)
               then Inl (Rejected 400 ''INVALID_QUANTITY'')
               else if (case u_price body of None \<Rightarrow> False | Some q \<Rightarrow> q \<le> 0)
               then Inl (Rejected 400 ''INVALID_PRICE'')
               else if (case u_total body of None \<Rightarrow> False | Some q \<Rightarrow> q \<le> 0)
               then Inl (Rejected 400 ''INVALID_TOTAL'')
               else Inr currentSale)"

text \<open>The SET clause of the UPDATE statement, applied to the row the statement finds.\<close>

definition put_assign :: "int \<Rightarrow> put_body \<Rightarrow> sale \<Rightarrow> sale" where
  "put_assign now body r =
     r\<lparr>product := (case u_product body of None \<Rightarrow> product r | Some x \<Rightarrow> x),
       quantity := (case u_quantity body of None \<Rightarrow> quantity r | Some x \<Rightarrow> x),
       price := (case u_price body of None \<Rightarrow> price r | Some x \<Rightarrow> x),
       total := (case u_total body of None \<Rightarrow> total r | Some x \<Rightarrow> x),
       customer := (case u_customer body of None \<Rightarrow> customer r | Some x \<Rightarrow> x),
       notes_col := (case u_notes body of None \<Rightarrow> notes_col r | Some x \<Rightarrow> Some x),
       payment_status := (case u_payment_status body of None \<Rightarrow> payment_status r | Some x \<Rightarrow> x),
       payment_method := (case u_payment_method body of None \<Rightarrow> payment_method r | Some x \<Rightarrow> Some x),
       amount_received := (case u_amount_received body of None \<Rightarrow> amount_received r | Some x \<Rightarrow> Some x),
       device_id := u_device_id body,
       sync_status := Pending,
       updated_at := now\<rparr>"

text \<open>
  The rest of the handler: the UPDATE in its own transaction (it finds the row by id
  among the rows not deleted, whatever the SELECT saw), the audit log, the fan-out and
  the answer. When the UPDATE returns no row, reading \<^verbatim>\<open>updatedSale.updated_at\<close> raises.
\<close>

definition put_write :: "env \<Rightarrow> string \<Rightarrow> put_body \<Rightarrow> sale \<Rightarrow> world \<Rightarrow> response \<times> world" where
  "put_write e ident body currentSale w =
     (let dev = the (u_device_id body);
          found = (case sales (w_db w) ident of None \<Rightarrow> None
                   | Some r \<Rightarrow> if is_deleted r then None else Some r)
      in case found of
           None \<Rightarrow>
             (let (syncLog, d1) = logSyncOperation e dev ''UPDATE'' ''sales'' (Some ident)
                                    (Some currentSale) None (w_db w)
              in (Store_failure None ''UNKNOWN_ERROR'', w\<lparr>w_db := d1\<rparr>))
         | Some OLD \<Rightarrow>
             (case sales_update_row (e_now e) (e_uuid e) ident OLD
                     (put_assign (e_now e) body OLD) (w_db w) of
                Inl error \<Rightarrow> (Store_failure None ''UNKNOWN_ERROR'', w)
              | Inr (updatedSale, d1) \<Rightarrow>
                  (let (syncLog, d2) = logSyncOperation e dev ''UPDATE'' ''sales'' (Some ident)
                                         (Some currentSale) (Some updatedSale) d1;
                       (broadcastResult, w') =
                          broadcast_w (Data_sync ''UPDATE'' (Row updatedSale) dev (map_option l_id syncLog))
                            (Some dev) (w\<lparr>w_db := d2\<rparr>)
                   in (Updated updatedSale (r_successCount broadcastResult > 0)
                         (r_successCount broadcastResult), w'))))"

definition put_sale :: "env \<Rightarrow> string \<Rightarrow> put_body \<Rightarrow> world \<Rightarrow> response \<times> world" where
  "put_sale e ident body w =
     (case put_check ident body (w_db w) of
        Inl res \<Rightarrow> (res, w)
      | Inr currentSale \<Rightarrow> put_write e ident body currentSale w)"

subsection \<open>DELETE /api/sales/:id\<close>

definition delete_sale :: "env \<Rightarrow> string \<Rightarrow> string option \<Rightarrow> world \<Rightarrow> response \<times> world" where
  "delete_sale e ident dev_opt w =
     (if \<not> truthy_str dev_opt then (Rejected 400 ''MISSING_DEVICE_ID'', w)
      else if ident = [] \<or> parseInt_isNaN ident then (Rejected 400 ''INVALID_SALE_ID'', w)
      else case sales (w_db w) ident of
             None \<Rightarrow> (Rejected 404 ''SALE_NOT_FOUND'', w)
           | Some saleToDelete \<Rightarrow>
               if is_deleted saleToDelete then (Rejected 404 ''SALE_NOT_FOUND'', w)
               else
                 (let dev = the dev_opt
                  in case soft_delete_sale (e_now e) (e_uuid e) ident dev (w_db w) of
                       Inl error \<Rightarrow> (Store_failure None ''UNKNOWN_ERROR'', w)
                     | Inr (deleted, d1) \<Rightarrow>
                         if \<not> deleted then (Rejected 404 ''DELETE_FAILED'', w\<lparr>w_db := d1\<rparr>)
                         else
                           (let (syncLog, d2) = logSyncOperation e dev ''DELETE'' ''sales'' (Some ident)
                                                  (Some saleToDelete) None d1;
                                (broadcastResult, w') =
                                   broadcast_w (Data_sync ''DELETE'' (Removed ident dev) dev
                                                  (map_option l_id syncLog))
                                     (Some dev) (w\<lparr>w_db := d2\<rparr>)
                            in (Deleted ident (r_successCount broadcastResult > 0)
                                  (r_successCount broadcastResult), w'))))"

subsection \<open>POST /api/conflicts/:id/resolve\<close>

definition post_conflict_resolve :: "env \<Rightarrow> string \<Rightarrow> string option \<Rightarrow> world \<Rightarrow> response \<times> world" where
  "post_conflict_resolve e ident strategy_opt w =
     (let strategy = (case strategy_opt of None \<Rightarrow> ''last_write_wins'' | Some x \<Rightarrow> x)
      in if strategy = ''last_write_wins'' then
           (case resolve_conflict_last_write_wins (e_now e) (e_uuid e) ident (w_db w) of
              Inl error \<Rightarrow> (Store_failure (Some 500) [], w)
            | Inr (ok, d1) \<Rightarrow>
                if ok then (Conflict_resolved, w\<lparr>w_db := d1\<rparr>)
                else (Rejected 404 ''Conflict not found'', w\<lparr>w_db := d1\<rparr>))
         else (Rejected 400 ''Unsupported resolution strategy'', w))"

subsection \<open>POST /api/sync/mark-synced\<close>

text \<open>
  \<^verbatim>\<open>UPDATE sales SET sync_status = 'synced', last_sync_at = CURRENT_TIMESTAMP WHERE id = ANY(...)\<close>:
  every row whose id is listed is updated once; the count of updated rows is returned.
\<close>

fun mark_rows :: "int \<Rightarrow> string \<Rightarrow> string list \<Rightarrow> db \<Rightarrow> db_error + (nat \<times> db)" where
  "mark_rows now new_id [] d = Inr (0, d)"
| "mark_rows now new_id (i # rest) d =
     (case sales d i of
        None \<Rightarrow> mark_rows now new_id rest d
      | Some OLD \<Rightarrow>
          (case sales_update_row now new_id i OLD
                  (OLD\<lparr>sync_status := Synced, last_sync_at := Some now\<rparr>) d of
             Inl e \<Rightarrow> Inl e
           | Inr (NEW, d1) \<Rightarrow>
               (case mark_rows now new_id rest d1 of
                  Inl e \<Rightarrow> Inl e
                | Inr (n, d2) \<Rightarrow> Inr (Suc n, d2))))"

definition mark_synced :: "env \<Rightarrow> string list \<Rightarrow> world \<Rightarrow> response \<times> world" where
  "mark_synced e sale_ids w =
     (if sale_ids = [] then (Rejected 400 ''sale_ids array is required'', w)
      else case mark_rows (e_now e) (e_uuid e) (remdups sale_ids) (w_db w) of
             Inl error \<Rightarrow> (Store_failure (Some 500) [], w)
           | Inr (n, d1) \<Rightarrow> (Synced_count n, w\<lparr>w_db := d1\<rparr>))"

subsection \<open>POST /api/sync\<close>

text \<open>
  The bulk endpoint runs its operations on one connection between BEGIN and COMMIT; an
  error rolls all of them back. The k-th operation takes the k-th uuid of the supply.
\<close>

datatype sync_op = Op_create post_body | Op_update | Op_delete string | Op_other

fun sync_ops :: "int \<Rightarrow> string \<Rightarrow> (nat \<Rightarrow> string) \<Rightarrow> nat \<Rightarrow> sync_op list \<Rightarrow> db \<Rightarrow> db_error + (sync_result list \<times> db)" where
  "sync_ops now dev supply k [] d = Inr ([], d)"
| "sync_ops now dev supply k (Op_create dat # rest) d =
     (if n_quantity dat = None \<or> n_price dat = None \<or> n_total dat = None \<or> n_customer dat = None
      then Inl NOT_NULL_VIOLATION
      else case sales_insert
                  (new_sale_row now (supply k)
                     (if truthy_str (n_product dat) then the (n_product dat) else ''Bananas'')
                     (the (n_quantity dat)) (the (n_price dat)) (the (n_total dat))
                     (the (n_customer dat))
                     (if truthy_str (n_notes dat) then n_notes dat else Some [])
                     (if truthy_str (n_payment_status dat) then the (n_payment_status dat) else ''pending'')
                     (if truthy_str (n_payment_method dat) then n_payment_method dat else Some [])
                     (if truthy_num (n_amount_received dat) then n_amount_received dat else Some 0)
                     (Some dev)) d of
             Inl e \<Rightarrow> Inl e
           | Inr (row, d1) \<Rightarrow>
               (case sync_ops now dev supply (Suc k) rest d1 of
                  Inl e \<Rightarrow> Inl e
                | Inr (rs, d2) \<Rightarrow> Inr (Create_result row # rs, d2)))"
| "sync_ops now dev supply k (Op_update # rest) d = sync_ops now dev supply (Suc k) rest d"
| "sync_ops now dev supply k (Op_delete i # rest) d =
     (case soft_delete_sale now (supply k) i dev d of
        Inl e \<Rightarrow> Inl e
      | Inr (deleted, d1) \<Rightarrow>
          (case sync_ops now dev supply (Suc k) rest d1 of
             Inl e \<Rightarrow> Inl e
           | Inr (rs, d2) \<Rightarrow> Inr (Delete_result deleted # rs, d2)))"
| "sync_ops now dev supply k (Op_other # rest) d = sync_ops now dev supply (Suc k) rest d"

definition post_sync :: "int \<Rightarrow> (nat \<Rightarrow> string) \<Rightarrow> string option \<Rightarrow> sync_op list option \<Rightarrow> world \<Rightarrow> response \<times> world" where
  "post_sync now supply dev_opt operations w =
     (if \<not> truthy_str dev_opt \<or> operations = None
      then (Rejected 400 ''device_id and operations array are required'', w)
      else case sync_ops now (the dev_opt) supply 0 (the operations) (w_db w) of
             Inl error \<Rightarrow> (Store_failure (Some 500) [], w)
           | Inr (results, d1) \<Rightarrow> (Bulk_results results, w\<lparr>w_db := d1\<rparr>))"

section \<open>Real-time channel: the message handler\<close>

definition bump_device :: "string \<Rightarrow> (string \<times> nat) list \<Rightarrow> (string \<times> nat) list" where
  "bump_device k al =
     (case map_of al k of
        None \<Rightarrow> al @ [(k, 1)]
      | Some n \<Rightarrow> map (\<lambda>(k', c). if k' = k then (k', c + 1) else (k', c)) al)"

definition getClientStats :: "registry \<Rightarrow> client_stats" where
  "getClientStats clients =
     fold (\<lambda>(sock, info) st.
             if truthy_str (deviceId info)
             then st\<lparr>withDeviceId := withDeviceId st + 1,
                     byDevice := bump_device (the (deviceId info)) (byDevice st)\<rparr>
             else st)
          clients \<lparr>stat_total = length clients, withDeviceId = 0, byDevice = []\<rparr>"

text \<open>
  A message after \<^verbatim>\<open>JSON.parse\<close>: text that does not parse, or one of the message kinds
  by its \<^verbatim>\<open>type\<close> (\<open>Register_device deviceId deviceName deviceType\<close>).
\<close>

datatype ws_message =
    Malformed
  | Register_device "string option" "string option" "string option"
  | Ping
  | Get_stats
  | Unknown_type string

text \<open>\<^verbatim>\<open>ws.send\<close>: \<open>None\<close> when the call raises, else the frame is handed to the socket.\<close>

definition ws_send :: "ws \<Rightarrow> frame \<Rightarrow> world \<Rightarrow> world option" where
  "ws_send sock f w =
     (if sendThrows sock then None
      else Some (w\<lparr>w_sent := w_sent w @ [(handle sock, f)]\<rparr>))"

text \<open>
  The \<^verbatim>\<open>try\<close> block of the message handler; the first component says whether an
  exception left the block. \<open>clientId\<close> is the identifier made when the connection was
  accepted.
\<close>

definition message_try :: "int \<Rightarrow> ws \<Rightarrow> string \<Rightarrow> ws_message \<Rightarrow> world \<Rightarrow> bool \<times> world" where
  "message_try now sock clientId msg w =
     (let w1 = w\<lparr>w_clients := markClientAlive now sock (w_clients w)\<rparr>;
          dev = (if truthy_str (ws_deviceId sock) then the (ws_deviceId sock) else clientId);
          (rateLimitResult, lim) = isAllowed (w_limiter w1) now dev ''websocket_message'';
          w2 = w1\<lparr>w_limiter := lim\<rparr>
      in if \<not> allowed rateLimitResult then
           (case ws_send sock (Rate_limit_exceeded (resetTime rateLimitResult)
                                 (violations_seen rateLimitResult)) w2 of
              None \<Rightarrow> (True, w2)
            | Some w3 \<Rightarrow> (False, w3))
         else
           (case msg of
              Malformed \<Rightarrow> (True, w2)
            | Register_device d dname dtype \<Rightarrow>
                if \<not> truthy_str d then (True, w2)
                else
                  (let w3 = w2\<lparr>w_db := registerDevice now (the d) dname dtype (w_db w2),
                               w_clients := updateClientDevice sock (the d) (w_clients w2)\<rparr>
                   in case ws_send sock (Device_registered (the d)) w3 of
                        None \<Rightarrow> (True, w3)
                      | Some w4 \<Rightarrow> (False, snd (broadcast_w (Device_connected (the d) dname) d w4)))
            | Ping \<Rightarrow>
                (case ws_send sock Pong w2 of None \<Rightarrow> (True, w2) | Some w3 \<Rightarrow> (False, w3))
            | Get_stats \<Rightarrow>
                (case ws_send sock (Stats_response (getClientStats (w_clients w2))) w2 of
                   None \<Rightarrow> (True, w2) | Some w3 \<Rightarrow> (False, w3))
            | Unknown_type t \<Rightarrow>
                (case ws_send sock (Error_frame ''UNKNOWN_MESSAGE_TYPE'') w2 of
                   None \<Rightarrow> (True, w2) | Some w3 \<Rightarrow> (False, w3))))"

text \<open>The handler with its \<^verbatim>\<open>catch\<close>: an error frame goes out if the socket is open.\<close>

definition on_message :: "int \<Rightarrow> ws \<Rightarrow> string \<Rightarrow> ws_message \<Rightarrow> world \<Rightarrow> world" where
  "on_message now sock clientId msg w =
     (case message_try now sock clientId msg w of
        (False, w') \<Rightarrow> w'
      | (True, w') \<Rightarrow>
          if readyState sock = OPEN then
            (case ws_send sock (Error_frame ''MESSAGE_PROCESSING_ERROR'') w' of
               None \<Rightarrow> w'
             | Some w'' \<Rightarrow> w'')
          else w')"

text \<open>Messages of one connection are handled in the order of their arrival.\<close>

fun on_messages :: "ws \<Rightarrow> string \<Rightarrow> (int \<times> ws_message) list \<Rightarrow> world \<Rightarrow> world" where
  "on_messages sock clientId [] w = w"
| "on_messages sock clientId ((now, msg) # rest) w =
     on_messages sock clientId rest (on_message now sock clientId msg w)"

section \<open>Schedules, histories and example data\<close>

text \<open>
  Two update requests on one record whose SELECTs have both been answered before either
  UPDATE runs: each handler is suspended at the \<^verbatim>\<open>await\<close> between its two store calls.
\<close>

definition put_sale_interleaved :: "env \<Rightarrow> env \<Rightarrow> string \<Rightarrow> put_body \<Rightarrow> put_body \<Rightarrow> world \<Rightarrow> response \<times> response \<times> world" where
  "put_sale_interleaved eA eB ident bodyA bodyB w =
     (let checkA = put_check ident bodyA (w_db w);
          checkB = put_check ident bodyB (w_db w);
          (resA, w1) = (case checkA of Inl res \<Rightarrow> (res, w)
                        | Inr currentSale \<Rightarrow> put_write eA ident bodyA currentSale w);
          (resB, w2) = (case checkB of Inl res \<Rightarrow> (res, w1)
                        | Inr currentSale \<Rightarrow> put_write eB ident bodyB currentSale w1)
      in (resA, resB, w2))"

text \<open>The requests the server handles, and a history of them run one after the other.\<close>

datatype api_call =
    Post_sale env post_body
  | Put_sale env string put_body
  | Delete_sale env string "string option"
  | Resolve_conflict env string "string option"
  | Mark_synced env "string list"
  | Post_sync int "nat \<Rightarrow> string" "string option" "sync_op list option"
  | Ws_message int ws string ws_message

fun handle_call :: "api_call \<Rightarrow> world \<Rightarrow> world" where
  "handle_call (Post_sale e body) w = snd (post_sale e body w)"
| "handle_call (Put_sale e ident body) w = snd (put_sale e ident body w)"
| "handle_call (Delete_sale e ident dev) w = snd (delete_sale e ident dev w)"
| "handle_call (Resolve_conflict e ident strategy) w = snd (post_conflict_resolve e ident strategy w)"
| "handle_call (Mark_synced e ids) w = snd (mark_synced e ids w)"
| "handle_call (Post_sync now supply dev ops) w = snd (post_sync now supply dev ops w)"
| "handle_call (Ws_message now sock clientId msg) w = on_message now sock clientId msg w"

definition run_calls :: "api_call list \<Rightarrow> world \<Rightarrow> world" where
  "run_calls calls w = fold handle_call calls w"

text \<open>The state of one client's window at the start of a burst that begins at \<open>t1\<close>.\<close>

definition window_quiet :: "rate_limiter \<Rightarrow> string \<Rightarrow> string \<Rightarrow> int \<Rightarrow> bool" where
  "window_quiet clients cid ep t1 =
     (case clients (clientKey_of cid ep) of
        None \<Rightarrow> True
      | Some c \<Rightarrow> (\<forall>x\<in>set (requests c). x \<le> t1 - 1000)
                  \<and> length (filter (\<lambda>x. x > t1 - 60000) (requests c)) \<le> 50)"

definition burst_inv :: "int \<Rightarrow> int list \<Rightarrow> rl_client \<Rightarrow> bool" where
  "burst_inv t1 bs c =
     (\<exists>R. requests c = R @ bs \<and> (\<forall>x\<in>set R. x \<le> t1 - 1000)
          \<and> length (filter (\<lambda>x. x > t1 - 60000) R) \<le> 50)"

text \<open>Which entries of the registry a fan-out hands the frame to.\<close>

definition receives :: "string option \<Rightarrow> ws \<times> clientInfo \<Rightarrow> bool" where
  "receives excludeDeviceId e =
     (readyState (fst e) = OPEN \<and> deviceId (snd e) \<noteq> excludeDeviceId \<and> \<not> sendThrows (fst e))"

text \<open>
  Example data: a sale created by device dev-A at time 1000, a store holding it, and a
  server with no connections.
\<close>

definition sale1_id :: string where
  "sale1_id = ''1b9d6bcd-bbfd-4b2d-9b5d-ab8dfbbd4bed''"

definition sale1 :: sale where
  "sale1 = new_sale_row 1000 sale1_id ''Bananas'' 500 120 600 ''Ada'' (Some []) ''pending''
             (Some []) (Some 0) (Some ''dev-A'')"

definition store1 :: db where
  "store1 = \<lparr>sales = [sale1_id \<mapsto> sale1], conflicts = [], sync_log = [],
             devices = [\<lparr>d_device_id = ''dev-A'', device_name = None, device_type = ''unknown'',
                         last_seen_at = 1000, is_active = True\<rparr>]\<rparr>"

definition world1 :: world where
  "world1 = \<lparr>w_db = store1, w_clients = [], w_limiter = Map.empty, w_sent = []\<rparr>"

definition update_by :: "string \<Rightarrow> string \<Rightarrow> int option \<Rightarrow> put_body" where
  "update_by dev cust v =
     \<lparr>u_product = None, u_quantity = None, u_price = None, u_total = None,
      u_customer = Some cust, u_notes = None, u_payment_status = None,
      u_payment_method = None, u_amount_received = None,
      u_device_id = Some dev, u_version = v\<rparr>"

definition env_at :: "int \<Rightarrow> string \<Rightarrow> env" where
  "env_at now u = \<lparr>e_now = now, e_uuid = u, e_log_uuid = u @ ''-log'', e_log_fault = False\<rparr>"

text \<open>
  An example limiter state for the key of client 10.0.0.1 on path /api/sales: the one
  that has admitted ten requests at times 0 to 9.
\<close>

definition limiter_burst :: rate_limiter where
  "limiter_burst = [clientKey_of ''10.0.0.1'' ''/api/sales'' \<mapsto>
      \<lparr>requests = [0, 1, 2, 3, 4, 5, 6, 7, 8, 9], lastReset = 0, violations = 0\<rparr>]"


text \<open>Example sockets and registries.\<close>

definition sock :: "nat \<Rightarrow> ready_state \<Rightarrow> bool \<Rightarrow> ws" where
  "sock n st throws = \<lparr>handle = n, readyState = st, sendThrows = throws, ws_deviceId = None\<rparr>"




text \<open>The reply of the message handler to a ping, by the limiter's decision.\<close>

definition ping_reply :: "rl_decision \<Rightarrow> frame" where
  "ping_reply d = (if allowed d then Pong
                   else Rate_limit_exceeded (resetTime d) (violations_seen d))"

definition message_key :: "ws \<Rightarrow> string \<Rightarrow> string" where
  "message_key s clientId = (if truthy_str (ws_deviceId s) then the (ws_deviceId s) else clientId)"

text \<open>
  Eleven request times 50 ms apart, starting at 0 and starting at 59500; and sixty
  request times one second apart, starting at 0.
\<close>

definition burst_times :: "int list" where
  "burst_times = [0, 50, 100, 150, 200, 250, 300, 350, 400, 450, 500]"

definition burst_late :: "int list" where
  "burst_late = [59500, 59550, 59600, 59650, 59700, 59750, 59800, 59850, 59900, 59950, 60000]"

definition minute_times :: "int list" where
  "minute_times = map (\<lambda>k. 1000 * int k) [0..<60]"

text \<open>
  Which entries make \<^verbatim>\<open>ws.send\<close> raise during a fan-out, and the registry after the
  clients of such entries among \<open>xs\<close> have been removed.
\<close>

definition send_fails :: "string option \<Rightarrow> ws \<times> clientInfo \<Rightarrow> bool" where
  "send_fails excludeDeviceId e =
     (readyState (fst e) = OPEN \<and> deviceId (snd e) \<noteq> excludeDeviceId \<and> sendThrows (fst e))"

definition evicted :: "string option \<Rightarrow> (ws \<times> clientInfo) list \<Rightarrow> registry \<Rightarrow> registry" where
  "evicted excludeDeviceId xs clients =
     fold (\<lambda>e cl. if send_fails excludeDeviceId e then removeClient (fst e) cl else cl) xs clients"

text \<open>
  A store is well formed when every row of \<^verbatim>\<open>sales\<close> is stored under its own id and
  passes the CHECK constraints, and every conflict holds two snapshots that pass them
  and refers to a row that exists.
\<close>

definition store_ok :: "db \<Rightarrow> bool" where
  "store_ok d =
     ((\<forall>k r. sales d k = Some r \<longrightarrow> sale_id r = k \<and> sales_checks r)
      \<and> (\<forall>c\<in>set (conflicts d). sales_checks (data_1 c) \<and> sales_checks (data_2 c)
                                  \<and> sales d (record_id c) \<noteq> None))"

definition empty_store :: db where
  "empty_store = \<lparr>sales = Map.empty, conflicts = [], sync_log = [], devices = []\<rparr>"

definition empty_world :: world where
  "empty_world = \<lparr>w_db = empty_store, w_clients = [], w_limiter = Map.empty, w_sent = []\<rparr>"

text \<open>
  The example store after device dev-B has updated the sale with the version it read
  (conflict c1 is recorded), and the same after conflict c1 has been resolved once.
\<close>

definition world2 :: world where
  "world2 = snd (put_sale (env_at 2000 ''c1'') sale1_id (update_by ''dev-B'' ''Mallory'' (Some 1)) world1)"

definition world3 :: world where
  "world3 = snd (post_conflict_resolve (env_at 3000 ''c2'') ''c1'' (Some ''last_write_wins'') world2)"

text \<open>The row and the conflict that the update of dev-B leaves in the store.\<close>

definition sale1_b :: sale where
  "sale1_b = sale1\<lparr>customer := ''Mallory'', device_id := Some ''dev-B'', sync_status := Conflict,
                   updated_at := 2000, version := 2\<rparr>"

definition conflict1 :: conflict_row where
  "conflict1 =
     \<lparr>c_id = ''c1'', table_name = ''sales'', record_id = sale1_id,
      device_id_1 = ''dev-A'', device_id_2 = ''dev-B'',
      data_1 = sale1,
      data_2 = sale1\<lparr>customer := ''Mallory'', device_id := Some ''dev-B'', updated_at := 2000\<rparr>,
      resolution_data = None, resolution_strategy = None, resolved_at = None,
      is_resolved = False, c_created_at = 2000\<rparr>"

text \<open>
  The race on the example store: devices dev-B and dev-C have both read version 1 and
  both send an update with that version; the two SELECTs are answered before the two
  UPDATEs run.
\<close>

definition race1 :: "response \<times> response \<times> world" where
  "race1 = put_sale_interleaved (env_at 2000 ''c1'') (env_at 2001 ''c2'') sale1_id
             (update_by ''dev-B'' ''Bob'' (Some 1)) (update_by ''dev-C'' ''Carol'' (Some 1)) world1"

text \<open>The create request of device dev-A that makes the example store, and another one.\<close>

definition order0 :: post_body where
  "order0 = \<lparr>n_product = None, n_quantity = Some 500, n_price = Some 120, n_total = Some 600,
             n_customer = Some ''Ada'', n_notes = None, n_payment_status = None,
             n_payment_method = None, n_amount_received = None, n_device_id = Some ''dev-A''\<rparr>"





text \<open>
  What resolving does to a conflict row and to the live row, given the chosen snapshot.
\<close>

definition stamp_resolved :: "int \<Rightarrow> sale \<Rightarrow> conflict_row \<Rightarrow> conflict_row" where
  "stamp_resolved now chosen c =
     c\<lparr>resolution_data := Some chosen, resolution_strategy := Some ''last_write_wins'',
       resolved_at := Some now, is_resolved := True\<rparr>"

definition overwrite_from :: "int \<Rightarrow> sale \<Rightarrow> sale \<Rightarrow> sale" where
  "overwrite_from now chosen r =
     r\<lparr>product := product chosen, quantity := quantity chosen, price := price chosen,
       total := total chosen, customer := customer chosen, notes_col := notes_col chosen,
       payment_status := payment_status chosen, payment_method := payment_method chosen,
       amount_received := amount_received chosen, sync_status := Synced,
       updated_at := now, version := version r + 1\<rparr>"

section \<open>Properties of the rate limiter\<close>

lemma isAllowed_rejected:
  assumes "isAllowed clients now cid ep = (dec, clients')" and "\<not> allowed dec"
  shows "\<exists>c. clients (clientKey_of cid ep) = Some c
           \<and> clients' = clients(clientKey_of cid ep \<mapsto>
                 c\<lparr>requests := filter (\<lambda>t. t > now - 60000) (requests c),
                   violations := violations c + 1\<rparr>)"
  using assms
  by (auto simp: isAllowed_def Let_def split: option.splits if_splits)

lemma filter_later:
  fixes now later :: int
  assumes "now \<le> later"
  shows "filter (\<lambda>t. t > later - 60000) (filter (\<lambda>t. t > now - 60000) xs)
         = filter (\<lambda>t. t > later - 60000) xs"
  using assms by (induction xs) auto

lemma isAllowed_after_rejected:
  assumes "isAllowed clients now cid ep = (dec, clients')" and "\<not> allowed dec" and "now \<le> later"
  shows "allowed (fst (isAllowed clients' later cid ep)) = allowed (fst (isAllowed clients later cid ep))"
proof -
  from isAllowed_rejected[OF assms(1,2)] obtain c where
    c: "clients (clientKey_of cid ep) = Some c"
    and c': "clients' = clients(clientKey_of cid ep \<mapsto>
                 c\<lparr>requests := filter (\<lambda>t. t > now - 60000) (requests c),
                   violations := violations c + 1\<rparr>)" by blast
  show ?thesis
    by (simp add: isAllowed_def Let_def c c' filter_later[OF assms(3)] del: filter_filter)
qed

lemma filter_mono_len:
  fixes a b :: int
  assumes "a \<le> b"
  shows "length (filter (\<lambda>x. x > b) xs) \<le> length (filter (\<lambda>x. x > a) xs)"
  using assms by (induction xs) auto

lemma filter_all: "(\<forall>x\<in>set xs. P x) \<Longrightarrow> filter P xs = xs"
  by (induction xs) auto

lemma filter_none: "(\<forall>x\<in>set xs. \<not> P x) \<Longrightarrow> filter P xs = []"
  by (induction xs) auto

lemma burst_prune:
  fixes now t1 :: int
  assumes R: "\<forall>x\<in>set R. x \<le> t1 - 1000"
    and bs: "\<forall>b\<in>set bs. t1 \<le> b \<and> b < t1 + 1000"
    and now: "t1 \<le> now" "now < t1 + 1000"
  shows "filter (\<lambda>t. t > now - 60000) (R @ bs) = filter (\<lambda>t. t > now - 60000) R @ bs"
    and "filter (\<lambda>t. t > now - 1000) (filter (\<lambda>t. t > now - 60000) R @ bs) = bs"
proof -
  have a: "filter (\<lambda>t. t > now - 60000) bs = bs"
    by (rule filter_all) (use bs now in force)
  show "filter (\<lambda>t. t > now - 60000) (R @ bs) = filter (\<lambda>t. t > now - 60000) R @ bs"
    by (simp add: a)
  have b: "filter (\<lambda>t. t > now - 1000) bs = bs"
    by (rule filter_all) (use bs now in force)
  have c: "filter (\<lambda>t. t > now - 1000) (filter (\<lambda>t. t > now - 60000) R) = []"
    by (rule filter_none) (use R now in force)
  show "filter (\<lambda>t. t > now - 1000) (filter (\<lambda>t. t > now - 60000) R @ bs) = bs"
    by (simp only: filter_append b c append_Nil)
qed

lemma burst_accept:
  fixes now t1 :: int
  assumes c: "clients (clientKey_of cid ep) = Some c"
    and inv: "burst_inv t1 bs c"
    and bs: "\<forall>b\<in>set bs. t1 \<le> b \<and> b < t1 + 1000"
    and now: "t1 \<le> now" "now < t1 + 1000"
    and len: "length bs < 10"
  shows "allowed (fst (isAllowed clients now cid ep))
       \<and> (\<exists>c'. snd (isAllowed clients now cid ep) (clientKey_of cid ep) = Some c'
                \<and> burst_inv t1 (bs @ [now]) c')"
proof -
  from inv obtain R where R: "requests c = R @ bs" "\<forall>x\<in>set R. x \<le> t1 - 1000"
    "length (filter (\<lambda>x. x > t1 - 60000) R) \<le> 50"
    unfolding burst_inv_def by blast
  let ?R' = "filter (\<lambda>t. t > now - 60000) R"
  have p1: "filter (\<lambda>t. t > now - 60000) (requests c) = ?R' @ bs"
    using burst_prune(1)[OF R(2) bs now] R(1) by simp
  have p2: "filter (\<lambda>t. t > now - 1000) (?R' @ bs) = bs"
    by (rule burst_prune(2)[OF R(2) bs now])
  have l1: "length ?R' \<le> 50"
    using filter_mono_len[of "t1 - 60000" "now - 60000" R] now R(3) by simp
  have r1: "\<forall>x\<in>set ?R'. x \<le> t1 - 1000" using R(2) by simp
  have r2: "length (filter (\<lambda>x. x > t1 - 60000) ?R') \<le> 50"
    using l1 by (meson le_trans length_filter_le)
  have inv': "burst_inv t1 (bs @ [now]) (c\<lparr>requests := (?R' @ bs) @ [now]\<rparr>)"
    unfolding burst_inv_def using r1 r2 by (intro exI[of _ ?R']) simp
  have small: "\<not> int (length (?R' @ bs)) \<ge> maxRequestsPerMinute"
    using l1 len by (simp add: maxRequestsPerMinute_def)
  have small2: "\<not> int (length bs) \<ge> maxRequestsPerSecond"
    using len by (simp add: maxRequestsPerSecond_def)
  have "isAllowed clients now cid ep =
      (\<lparr>allowed = True,
         remaining = maxRequestsPerMinute - int (length ((?R' @ bs) @ [now])),
         resetTime = None, violations_seen = Some (violations c)\<rparr>,
       clients(clientKey_of cid ep \<mapsto> c\<lparr>requests := (?R' @ bs) @ [now]\<rparr>))"
    unfolding isAllowed_def Let_def c option.case p1 p2
    using small small2 by (simp only: if_False)
  then show ?thesis using inv' by simp
qed

lemma burst_reject:
  fixes now t1 :: int
  assumes c: "clients (clientKey_of cid ep) = Some c"
    and inv: "burst_inv t1 bs c"
    and bs: "\<forall>b\<in>set bs. t1 \<le> b \<and> b < t1 + 1000"
    and now: "t1 \<le> now" "now < t1 + 1000"
    and len: "length bs = 10"
  shows "\<not> allowed (fst (isAllowed clients now cid ep))"
proof -
  from inv obtain R where R: "requests c = R @ bs" "\<forall>x\<in>set R. x \<le> t1 - 1000"
    unfolding burst_inv_def by blast
  let ?R' = "filter (\<lambda>t. t > now - 60000) R"
  have p1: "filter (\<lambda>t. t > now - 60000) (requests c) = ?R' @ bs"
    using burst_prune(1)[OF R(2) bs now] R(1) by simp
  have p2: "filter (\<lambda>t. t > now - 1000) (?R' @ bs) = bs"
    by (rule burst_prune(2)[OF R(2) bs now])
  have big: "int (length bs) \<ge> maxRequestsPerSecond"
    using len by (simp add: maxRequestsPerSecond_def)
  show ?thesis
    unfolding isAllowed_def Let_def c option.case p1 p2
    using big by (simp only: if_True split: if_splits) auto
qed


lemma isAllowed_seq_Cons:
  "isAllowed_seq clients cid ep (now # rest) =
     (fst (isAllowed clients now cid ep)
        # fst (isAllowed_seq (snd (isAllowed clients now cid ep)) cid ep rest),
      snd (isAllowed_seq (snd (isAllowed clients now cid ep)) cid ep rest))"
  by (simp add: Let_def split: prod.splits)

lemma isAllowed_seq_append:
  "isAllowed_seq clients cid ep (xs @ ys) =
     (fst (isAllowed_seq clients cid ep xs)
        @ fst (isAllowed_seq (snd (isAllowed_seq clients cid ep xs)) cid ep ys),
      snd (isAllowed_seq (snd (isAllowed_seq clients cid ep xs)) cid ep ys))"
  by (induction xs arbitrary: clients) (simp_all add: isAllowed_seq_Cons del: isAllowed_seq.simps(2))

lemma burst_seq_accept:
  fixes t1 :: int
  assumes "clients (clientKey_of cid ep) = Some c"
    and "burst_inv t1 bs c"
    and "\<forall>b\<in>set bs. t1 \<le> b \<and> b < t1 + 1000"
    and "\<forall>t\<in>set us. t1 \<le> t \<and> t < t1 + 1000"
    and "length bs + length us \<le> 10"
  shows "map allowed (fst (isAllowed_seq clients cid ep us)) = replicate (length us) True
       \<and> (\<exists>c'. snd (isAllowed_seq clients cid ep us) (clientKey_of cid ep) = Some c'
                \<and> burst_inv t1 (bs @ us) c')"
  using assms
proof (induction us arbitrary: clients c bs)
  case Nil
  then show ?case by simp
next
  case (Cons u us)
  have u: "t1 \<le> u" "u < t1 + 1000" using Cons.prems(4) by auto
  have len: "length bs < 10" using Cons.prems(5) by simp
  from burst_accept[where clients=clients and cid=cid and ep=ep, OF Cons.prems(1,2,3) u len]
  obtain c' where a: "allowed (fst (isAllowed clients u cid ep))"
    and s: "snd (isAllowed clients u cid ep) (clientKey_of cid ep) = Some c'"
    and i: "burst_inv t1 (bs @ [u]) c'" by blast
  have bs': "\<forall>b\<in>set (bs @ [u]). t1 \<le> b \<and> b < t1 + 1000"
    using Cons.prems(3) u by auto
  have us': "\<forall>t\<in>set us. t1 \<le> t \<and> t < t1 + 1000" using Cons.prems(4) by auto
  have len': "length (bs @ [u]) + length us \<le> 10" using Cons.prems(5) by simp
  from Cons.IH[where clients="snd (isAllowed clients u cid ep)", OF s i bs' us' len']
  show ?case using a by (simp add: isAllowed_seq_Cons del: isAllowed_seq.simps(2))
qed

lemma burst_first_ten:
  fixes ts :: "int list"
  assumes quiet: "window_quiet clients cid ep (hd ts)"
    and len: "length ts = 10"
    and within: "\<forall>t\<in>set ts. hd ts \<le> t \<and> t < hd ts + 1000"
  shows "map allowed (fst (isAllowed_seq clients cid ep ts)) = replicate (length ts) True
       \<and> (\<exists>c'. snd (isAllowed_seq clients cid ep ts) (clientKey_of cid ep) = Some c'
                \<and> burst_inv (hd ts) ts c')"
proof (cases "clients (clientKey_of cid ep)")
  case None
  from len obtain t1 rest where ts: "ts = t1 # rest" by (cases ts) auto
  let ?c = "\<lparr>requests = [t1], lastReset = t1, violations = 0\<rparr>"
  let ?cl = "clients(clientKey_of cid ep \<mapsto> ?c)"
  have first: "isAllowed clients t1 cid ep =
      (\<lparr>allowed = True, remaining = maxRequestsPerMinute - 1, resetTime = None,
         violations_seen = None\<rparr>, ?cl)"
    by (simp add: isAllowed_def Let_def None)
  have inv: "burst_inv t1 [t1] ?c" by (simp add: burst_inv_def)
  have rest: "\<forall>t\<in>set rest. t1 \<le> t \<and> t < t1 + 1000" using within ts by simp
  have l: "length [t1] + length rest \<le> 10" using len ts by simp
  have k: "?cl (clientKey_of cid ep) = Some ?c" by simp
  from burst_seq_accept[where clients="?cl" and cid=cid and ep=ep, OF k inv _ rest l]
  show ?thesis using first ts by (simp add: isAllowed_seq_Cons del: isAllowed_seq.simps(2))
next
  case (Some c)
  have inv: "burst_inv (hd ts) [] c"
    using quiet Some by (simp add: window_quiet_def burst_inv_def)
  from burst_seq_accept[where clients=clients and cid=cid and ep=ep, OF Some inv _ within] len
  show ?thesis by simp
qed

lemma burst_eleventh_rejected:
  fixes ts :: "int list"
  assumes quiet: "window_quiet clients cid ep (hd ts)"
    and len: "length ts \<ge> 11"
    and within: "\<forall>t\<in>set ts. hd ts \<le> t \<and> t < hd ts + 1000"
  shows "take 11 (map allowed (fst (isAllowed_seq clients cid ep ts))) = replicate 10 True @ [False]"
proof -
  define pre where "pre = take 10 ts"
  define t11 where "t11 = ts ! 10"
  define post where "post = drop 11 ts"
  have "10 < length ts" using len by simp
  from Cons_nth_drop_Suc[OF this] have "drop 10 ts = t11 # post"
    unfolding t11_def post_def by simp
  then have ts: "ts = pre @ t11 # post"
    unfolding pre_def by (metis append_take_drop_id)
  have lp: "length pre = 10" unfolding pre_def using len by simp
  have hd: "hd pre = hd ts" unfolding pre_def using len by (cases ts) auto
  have wp: "\<forall>t\<in>set pre. hd pre \<le> t \<and> t < hd pre + 1000"
    unfolding hd using within ts by auto
  have q: "window_quiet clients cid ep (hd pre)" using quiet hd by simp
  from burst_first_ten[OF q lp wp] obtain c' where
    a: "map allowed (fst (isAllowed_seq clients cid ep pre)) = replicate (length pre) True"
    and s: "snd (isAllowed_seq clients cid ep pre) (clientKey_of cid ep) = Some c'"
    and i: "burst_inv (hd pre) pre c'" by blast
  have t11: "hd pre \<le> t11" "t11 < hd pre + 1000" unfolding hd using within ts by auto
  from burst_reject[where clients="snd (isAllowed_seq clients cid ep pre)" and cid=cid and ep=ep, OF s i wp t11 lp]
  have r: "\<not> allowed (fst (isAllowed (snd (isAllowed_seq clients cid ep pre)) t11 cid ep))" .
  have "map allowed (fst (isAllowed_seq clients cid ep ts))
      = replicate 10 True @ False # map allowed (fst (isAllowed_seq
           (snd (isAllowed (snd (isAllowed_seq clients cid ep pre)) t11 cid ep)) cid ep post))"
    unfolding ts isAllowed_seq_append using a r lp
    by (simp add: isAllowed_seq_Cons del: isAllowed_seq.simps(2))
  then show ?thesis by simp
qed

section \<open>Properties of the fan-out\<close>

lemma sendBatch_Nil: "sendBatch m x [] st = st"
  by (simp add: sendBatch_def)

lemma sendBatch_append: "sendBatch m x (xs @ ys) st = sendBatch m x ys (sendBatch m x xs st)"
  by (simp add: sendBatch_def)

lemma processBatches_sendBatch: "processBatches m x arr st = sendBatch m x arr st"
proof (induction m x arr st rule: processBatches.induct)
  case (1 m x arr st)
  show ?case
  proof (cases "arr = []")
    case True
    then show ?thesis by (subst processBatches.simps) (simp add: sendBatch_Nil)
  next
    case False
    have "processBatches m x arr st
        = sendBatch m x (drop batchSize arr) (sendBatch m x (take batchSize arr) st)"
      using False "1.IH" by (subst processBatches.simps) simp
    also have "\<dots> = sendBatch m x (take batchSize arr @ drop batchSize arr) st"
      by (simp only: sendBatch_append)
    finally show ?thesis by simp
  qed
qed

lemma send_one_delivered:
  "delivered (send_one m x e st) = delivered st @ (if receives x e then [(handle (fst e), m)] else [])"
  by (cases e) (simp add: send_one_def receives_def)

lemma sendBatch_delivered:
  "delivered (sendBatch m x xs st)
     = delivered st @ map (\<lambda>e. (handle (fst e), m)) (filter (receives x) xs)"
proof (induction xs arbitrary: st)
  case Nil
  then show ?case by (simp add: sendBatch_def)
next
  case (Cons e xs)
  have "sendBatch m x (e # xs) st = sendBatch m x xs (send_one m x e st)"
    by (simp add: sendBatch_def)
  then show ?case using Cons.IH[of "send_one m x e st"]
    by (simp add: send_one_delivered)
qed

lemma send_one_successCount:
  "successCount (send_one m x e st) = successCount st + (if receives x e then 1 else 0)"
  by (cases e) (simp add: send_one_def receives_def)

lemma sendBatch_successCount:
  "successCount (sendBatch m x xs st) = successCount st + length (filter (receives x) xs)"
proof (induction xs arbitrary: st)
  case Nil
  then show ?case by (simp add: sendBatch_def)
next
  case (Cons e xs)
  have "sendBatch m x (e # xs) st = sendBatch m x xs (send_one m x e st)"
    by (simp add: sendBatch_def)
  then show ?case using Cons.IH[of "send_one m x e st"]
    by (simp add: send_one_successCount)
qed


lemma broadcast_counts:
  "r_successCount (fst (broadcast m x clients)) = length (filter (receives x) (take batchSize clients))"
  by (simp add: broadcast_def Let_def sendBatch_successCount)

text \<open>The example limiter state is the one a new client reaches with ten requests.\<close>

lemma limiter_burst_reachable:
  "snd (isAllowed_seq Map.empty ''10.0.0.1'' ''/api/sales'' [0, 1, 2, 3, 4, 5, 6, 7, 8, 9])
     = limiter_burst"
  by (simp add: limiter_burst_def isAllowed_def Let_def maxRequestsPerMinute_def
        maxRequestsPerSecond_def clientKey_of_def)

section \<open>Claims about the rate limiter\<close>

text \<open>
  Claim C10. A rejected admission check consumes no quota: when \<open>isAllowed\<close> answers
  \<open>allowed = False\<close>, the client's entry exists and the only change of the limiter is
  that this entry's window is pruned of the times older than a minute and its violation
  counter is one higher; no time is recorded and no other key changes. Hence the
  rejected call changes no later decision for the client: at any later time the check
  gives the same answer as it would have given without the rejected call.
\<close>

theorem rejected_check_consumes_no_quota:
  assumes "isAllowed clients now cid ep = (dec, clients')" and "\<not> allowed dec"
  shows "(\<exists>c. clients (clientKey_of cid ep) = Some c
            \<and> clients' = clients(clientKey_of cid ep \<mapsto>
                  c\<lparr>requests := filter (\<lambda>t. t > now - 60000) (requests c),
                    violations := violations c + 1\<rparr>))
       \<and> (\<forall>later\<ge>now. allowed (fst (isAllowed clients' later cid ep))
                         = allowed (fst (isAllowed clients later cid ep)))"
  using isAllowed_rejected[OF assms] isAllowed_after_rejected[OF assms] by blast

text \<open>
  Witness for C10: the eleventh request of a burst, at time 10, is rejected, and the
  window still holds the ten admitted times and nothing else.
\<close>

theorem rejected_check_consumes_no_quota_witness:
  "\<not> allowed (fst (isAllowed limiter_burst 10 ''10.0.0.1'' ''/api/sales''))
   \<and> map_option requests
        (snd (isAllowed limiter_burst 10 ''10.0.0.1'' ''/api/sales'')
           (clientKey_of ''10.0.0.1'' ''/api/sales''))
      = Some [0, 1, 2, 3, 4, 5, 6, 7, 8, 9]
   \<and> map_option violations
        (snd (isAllowed limiter_burst 10 ''10.0.0.1'' ''/api/sales'')
           (clientKey_of ''10.0.0.1'' ''/api/sales''))
      = Some 1"
proof -
  have h1: "isAllowed limiter_burst 10 ''10.0.0.1'' ''/api/sales''
            = (fst (isAllowed limiter_burst 10 ''10.0.0.1'' ''/api/sales''),
               snd (isAllowed limiter_burst 10 ''10.0.0.1'' ''/api/sales''))"
    by simp
  have h2: "\<not> allowed (fst (isAllowed limiter_burst 10 ''10.0.0.1'' ''/api/sales''))"
    by (simp add: isAllowed_def limiter_burst_def Let_def maxRequestsPerMinute_def
          maxRequestsPerSecond_def)
  have c: "limiter_burst (clientKey_of ''10.0.0.1'' ''/api/sales'')
           = Some \<lparr>requests = [0, 1, 2, 3, 4, 5, 6, 7, 8, 9], lastReset = 0, violations = 0\<rparr>"
    by (simp add: limiter_burst_def)
  from rejected_check_consumes_no_quota[OF h1 h2] c h2
  show ?thesis by auto
qed

section \<open>Properties of the message handler\<close>

lemma broadcast_w_limiter [simp]: "w_limiter (snd (broadcast_w m x w)) = w_limiter w"
  by (simp add: broadcast_w_def Let_def split: prod.splits)

lemma broadcast_w_db [simp]: "w_db (snd (broadcast_w m x w)) = w_db w"
  by (simp add: broadcast_w_def Let_def split: prod.splits)

lemma on_message_limiter:
  "w_limiter (on_message now s cid msg w)
     = snd (isAllowed (w_limiter w) now (message_key s cid) ''websocket_message'')"
  by (cases msg)
     (auto simp: on_message_def message_try_def message_key_def ws_send_def Let_def
           split: prod.splits option.splits if_splits)

lemma on_message_rejected:
  assumes "\<not> allowed (fst (isAllowed (w_limiter w) now (message_key s cid) ''websocket_message''))"
    and "\<not> sendThrows s"
  shows "on_message now s cid msg w =
           w\<lparr>w_clients := markClientAlive now s (w_clients w),
             w_limiter := snd (isAllowed (w_limiter w) now (message_key s cid) ''websocket_message''),
             w_sent := w_sent w @ [(handle s,
                ping_reply (fst (isAllowed (w_limiter w) now (message_key s cid) ''websocket_message'')))]\<rparr>"
  using assms
  by (auto simp: on_message_def message_try_def message_key_def ws_send_def Let_def ping_reply_def
           split: prod.splits)

lemma on_message_ping:
  assumes "\<not> sendThrows s"
  shows "on_message now s cid Ping w =
           w\<lparr>w_clients := markClientAlive now s (w_clients w),
             w_limiter := snd (isAllowed (w_limiter w) now (message_key s cid) ''websocket_message''),
             w_sent := w_sent w @ [(handle s,
                ping_reply (fst (isAllowed (w_limiter w) now (message_key s cid) ''websocket_message'')))]\<rparr>"
  using assms
  by (auto simp: on_message_def message_try_def message_key_def ws_send_def Let_def ping_reply_def
           split: prod.splits)

lemma on_messages_append:
  "on_messages s cid (xs @ ys) w = on_messages s cid ys (on_messages s cid xs w)"
  by (induction xs arbitrary: w) auto

lemma on_messages_pings:
  assumes "\<not> sendThrows s"
  shows "w_limiter (on_messages s cid (map (\<lambda>t. (t, Ping)) ts) w)
           = snd (isAllowed_seq (w_limiter w) (message_key s cid) ''websocket_message'' ts)
       \<and> w_sent (on_messages s cid (map (\<lambda>t. (t, Ping)) ts) w)
           = w_sent w @ map (\<lambda>d. (handle s, ping_reply d))
               (fst (isAllowed_seq (w_limiter w) (message_key s cid) ''websocket_message'' ts))
       \<and> w_db (on_messages s cid (map (\<lambda>t. (t, Ping)) ts) w) = w_db w"
proof (induction ts arbitrary: w)
  case Nil
  then show ?case by simp
next
  case (Cons t ts)
  show ?case
    using Cons.IH[of "on_message t s cid Ping w"]
    by (simp add: on_message_ping[OF assms] isAllowed_seq_Cons del: isAllowed_seq.simps(2))
qed

lemma rejected_resetTime:
  assumes "\<not> allowed (fst (isAllowed clients now cid ep))"
  shows "resetTime (fst (isAllowed clients now cid ep)) = Some now"
  using assms by (auto simp: isAllowed_def Let_def split: option.splits if_splits)

section \<open>Claims about admission bursts and fan-out\<close>

text \<open>
  Claim C6, as amended. Take a client key whose window is quiet when the burst starts:
  the key is new, or its window holds no time within the second before the first request
  and at most 50 times within the minute before it. If more than ten admission requests
  for that key arrive within one second of the first, the first ten are accepted and
  the eleventh is rejected. Over the real-time channel, on a socket whose send does not
  raise: after ten pings within the second, the eleventh message, whatever its kind, is
  answered by the frame \<^verbatim>\<open>rate_limit_exceeded\<close> (its reset time is the time of that
  message) and by nothing else, and it is not processed: the store is unchanged.
\<close>

theorem burst_cap_from_quiet_window:
  "(window_quiet clients cid ep (hd ts) \<and> length ts \<ge> 11
      \<and> (\<forall>t\<in>set ts. hd ts \<le> t \<and> t < hd ts + 1000)
    \<longrightarrow> take 11 (map allowed (fst (isAllowed_seq clients cid ep ts))) = replicate 10 True @ [False])
   \<and> (window_quiet (w_limiter w) (message_key s clientId) ''websocket_message'' (hd ts)
        \<and> length ts = 11 \<and> (\<forall>t\<in>set ts. hd ts \<le> t \<and> t < hd ts + 1000)
        \<and> \<not> sendThrows s
      \<longrightarrow> (\<exists>v. w_sent (on_messages s clientId
                          (map (\<lambda>t. (t, Ping)) (take 10 ts) @ [(ts ! 10, msg)]) w)
                 = w_sent w @ replicate 10 (handle s, Pong)
                     @ [(handle s, Rate_limit_exceeded (Some (ts ! 10)) v)])
          \<and> w_db (on_messages s clientId
                     (map (\<lambda>t. (t, Ping)) (take 10 ts) @ [(ts ! 10, msg)]) w) = w_db w)"
proof (rule conjI; rule impI)
  assume "window_quiet clients cid ep (hd ts) \<and> length ts \<ge> 11
      \<and> (\<forall>t\<in>set ts. hd ts \<le> t \<and> t < hd ts + 1000)"
  then show "take 11 (map allowed (fst (isAllowed_seq clients cid ep ts))) = replicate 10 True @ [False]"
    using burst_eleventh_rejected by blast
next
  assume a: "window_quiet (w_limiter w) (message_key s clientId) ''websocket_message'' (hd ts)
        \<and> length ts = 11 \<and> (\<forall>t\<in>set ts. hd ts \<le> t \<and> t < hd ts + 1000)
        \<and> \<not> sendThrows s"
  let ?K = "message_key s clientId"
  let ?E = "''websocket_message''"
  define pre where "pre = take 10 ts"
  define t11 where "t11 = ts ! 10"
  define w10 where "w10 = on_messages s clientId (map (\<lambda>t. (t, Ping)) pre) w"
  from a have ns: "\<not> sendThrows s" and len: "length ts = 11" by simp_all
  have lp: "length pre = 10" unfolding pre_def using len by simp
  have hd: "hd pre = hd ts" unfolding pre_def using len by (cases ts) auto
  have wp: "\<forall>t\<in>set pre. hd pre \<le> t \<and> t < hd pre + 1000"
    unfolding hd using a by (auto simp: pre_def dest: in_set_takeD)
  have q: "window_quiet (w_limiter w) ?K ?E (hd pre)" using a hd by simp
  from burst_first_ten[OF q lp wp] obtain c' where
    acc: "map allowed (fst (isAllowed_seq (w_limiter w) ?K ?E pre)) = replicate (length pre) True"
    and st: "snd (isAllowed_seq (w_limiter w) ?K ?E pre) (clientKey_of ?K ?E) = Some c'"
    and inv: "burst_inv (hd pre) pre c'" by blast
  from on_messages_pings[OF ns, of clientId pre w]
  have lim10: "w_limiter w10 = snd (isAllowed_seq (w_limiter w) ?K ?E pre)"
    and sent10: "w_sent w10 = w_sent w @ map (\<lambda>d. (handle s, ping_reply d))
                    (fst (isAllowed_seq (w_limiter w) ?K ?E pre))"
    and db10: "w_db w10 = w_db w"
    unfolding w10_def by simp_all
  have all_pong: "map (\<lambda>d. (handle s, ping_reply d)) (fst (isAllowed_seq (w_limiter w) ?K ?E pre))
                  = replicate 10 (handle s, Pong)"
  proof -
    have "\<forall>d\<in>set (fst (isAllowed_seq (w_limiter w) ?K ?E pre)). allowed d"
      using acc by (metis (no_types, lifting) in_set_replicate imageI list.set_map)
    then have "map (\<lambda>d. (handle s, ping_reply d)) (fst (isAllowed_seq (w_limiter w) ?K ?E pre))
             = map (\<lambda>d. (handle s, Pong)) (fst (isAllowed_seq (w_limiter w) ?K ?E pre))"
      by (simp add: ping_reply_def)
    also have "\<dots> = replicate (length (fst (isAllowed_seq (w_limiter w) ?K ?E pre))) (handle s, Pong)"
      by (simp add: map_replicate_const)
    also have "length (fst (isAllowed_seq (w_limiter w) ?K ?E pre)) = 10"
      using acc lp by (metis length_map length_replicate)
    finally show ?thesis .
  qed
  have "10 < length ts" using len by simp
  then have "ts ! 10 \<in> set ts" by simp
  then have t11: "hd pre \<le> t11" "t11 < hd pre + 1000" unfolding hd t11_def using a by auto
  have st': "w_limiter w10 (clientKey_of ?K ?E) = Some c'" using st lim10 by simp
  from burst_reject[where clients="w_limiter w10" and cid="?K" and ep="?E", OF st' inv wp t11 lp]
  have rej: "\<not> allowed (fst (isAllowed (w_limiter w10) t11 ?K ?E))" .
  have rt: "resetTime (fst (isAllowed (w_limiter w10) t11 ?K ?E)) = Some t11"
    by (rule rejected_resetTime[OF rej])
  have last: "on_message t11 s clientId msg w10 =
           w10\<lparr>w_clients := markClientAlive t11 s (w_clients w10),
             w_limiter := snd (isAllowed (w_limiter w10) t11 ?K ?E),
             w_sent := w_sent w10 @ [(handle s, ping_reply (fst (isAllowed (w_limiter w10) t11 ?K ?E)))]\<rparr>"
    using on_message_rejected[OF rej ns, of msg] by simp
  have whole: "on_messages s clientId (map (\<lambda>t. (t, Ping)) pre @ [(t11, msg)]) w
             = on_message t11 s clientId msg w10"
    by (simp add: on_messages_append w10_def)
  have reply: "ping_reply (fst (isAllowed (w_limiter w10) t11 ?K ?E))
             = Rate_limit_exceeded (Some t11) (violations_seen (fst (isAllowed (w_limiter w10) t11 ?K ?E)))"
    using rej rt by (simp add: ping_reply_def)
  show "(\<exists>v. w_sent (on_messages s clientId
                          (map (\<lambda>t. (t, Ping)) (take 10 ts) @ [(ts ! 10, msg)]) w)
                 = w_sent w @ replicate 10 (handle s, Pong)
                     @ [(handle s, Rate_limit_exceeded (Some (ts ! 10)) v)])
          \<and> w_db (on_messages s clientId
                     (map (\<lambda>t. (t, Ping)) (take 10 ts) @ [(ts ! 10, msg)]) w) = w_db w"
    using whole last reply sent10 all_pong db10
    unfolding pre_def[symmetric] t11_def[symmetric] by auto
qed

text \<open>
  Witness for C6: a new client sends eleven requests 50 ms apart; on the real-time
  channel the eleven pings of a new connection get ten pongs and one
  \<^verbatim>\<open>rate_limit_exceeded\<close>.
\<close>

theorem burst_cap_witness:
  "window_quiet Map.empty ''10.0.0.1'' ''/api/sales'' (hd burst_times)
   \<and> take 11 (map allowed (fst (isAllowed_seq Map.empty ''10.0.0.1'' ''/api/sales'' burst_times)))
       = replicate 10 True @ [False]
   \<and> \<not> sendThrows (sock 1 OPEN False)
   \<and> (\<exists>v. w_sent (on_messages (sock 1 OPEN False) ''10.0.0.1_1700000000000''
                     (map (\<lambda>t. (t, Ping)) (take 10 burst_times) @ [(burst_times ! 10, Ping)]) world1)
            = replicate 10 (1, Pong) @ [(1, Rate_limit_exceeded (Some 500) v)])"
proof -
  have q1: "window_quiet Map.empty ''10.0.0.1'' ''/api/sales'' (hd burst_times)"
    by (simp add: window_quiet_def)
  have q2: "window_quiet (w_limiter world1) (message_key (sock 1 OPEN False) ''10.0.0.1_1700000000000'')
              ''websocket_message'' (hd burst_times)"
    by (simp add: window_quiet_def world1_def)
  have l1: "length burst_times \<ge> 11" and l2: "length burst_times = 11"
    by (simp_all add: burst_times_def)
  have r: "\<forall>t\<in>set burst_times. hd burst_times \<le> t \<and> t < hd burst_times + 1000"
    by (simp add: burst_times_def)
  have ns: "\<not> sendThrows (sock 1 OPEN False)" by (simp add: sock_def)
  have t: "burst_times ! 10 = 500" by (simp add: burst_times_def)
  have h: "handle (sock 1 OPEN False) = 1" by (simp add: sock_def)
  have e: "w_sent world1 = []" by (simp add: world1_def)
  from burst_cap_from_quiet_window[of Map.empty "''10.0.0.1''" "''/api/sales''" burst_times
          world1 "sock 1 OPEN False" "''10.0.0.1_1700000000000''" Ping]
       q1 q2 l1 l2 r ns
  show ?thesis by (simp add: t e sock_def)
qed

text \<open>
  Counterexample to C6 as stated: a new client sends one request per second for a
  minute, at times 0 to 59000, and all sixty are accepted; it then sends eleven requests
  between 59500 and 60000. The minute cap rejects the first ten of them, and the
  eleventh, at 60000, is accepted, the request of time 0 having left the window.
\<close>

theorem burst_cap_counterexample:
  "length burst_late = 11 \<and> last burst_late - hd burst_late < 1000
   \<and> map allowed (fst (isAllowed_seq Map.empty ''10.0.0.1'' ''/api/sales''
                           (minute_times @ burst_late)))
       = replicate 60 True
           @ [False, False, False, False, False, False, False, False, False, False, True]"
  by code_simp




section \<open>Properties of the store and of the handlers\<close>

lemma logSyncOperation_tables [simp]:
  "sales (snd (logSyncOperation e dev op tbl rid old new d)) = sales d"
  "conflicts (snd (logSyncOperation e dev op tbl rid old new d)) = conflicts d"
  "devices (snd (logSyncOperation e dev op tbl rid old new d)) = devices d"
  by (auto simp: logSyncOperation_def sync_log_insert_def Let_def split: sum.splits)



text \<open>
  The handlers pass the operation kinds in upper case, which the CHECK constraint of
  \<^verbatim>\<open>sync_log.operation_type\<close> does not admit: their audit rows are never stored.
\<close>

lemma logSyncOperation_upper_case:
  "op \<in> {''CREATE'', ''UPDATE'', ''DELETE''}
   \<Longrightarrow> logSyncOperation e dev op tbl rid old new d = (None, d)"
  by (auto simp: logSyncOperation_def sync_log_insert_def)

lemma send_one_failureCount:
  "failureCount (send_one m x e st) = failureCount st + (if send_fails x e then 1 else 0)"
  by (cases e) (simp add: send_one_def send_fails_def)

lemma sendBatch_failureCount:
  "failureCount (sendBatch m x xs st) = failureCount st + length (filter (send_fails x) xs)"
proof (induction xs arbitrary: st)
  case Nil
  then show ?case by (simp add: sendBatch_def)
next
  case (Cons e xs)
  have "sendBatch m x (e # xs) st = sendBatch m x xs (send_one m x e st)"
    by (simp add: sendBatch_def)
  then show ?case using Cons.IH[of "send_one m x e st"]
    by (simp add: send_one_failureCount)
qed

lemma send_one_f_clients:
  "f_clients (send_one m x e st)
     = (if send_fails x e then removeClient (fst e) (f_clients st) else f_clients st)"
  by (cases e) (simp add: send_one_def send_fails_def)

lemma sendBatch_f_clients:
  "f_clients (sendBatch m x xs st) = evicted x xs (f_clients st)"
proof (induction xs arbitrary: st)
  case Nil
  then show ?case by (simp add: sendBatch_def evicted_def)
next
  case (Cons e xs)
  have "sendBatch m x (e # xs) st = sendBatch m x xs (send_one m x e st)"
    by (simp add: sendBatch_def)
  then show ?case using Cons.IH[of "send_one m x e st"]
    by (simp add: send_one_f_clients evicted_def)
qed

lemma broadcast_w_fst [simp]:
  "fst (broadcast_w m x w)
     = \<lparr>r_successCount = length (filter (receives x) (take batchSize (w_clients w))),
        r_failureCount = length (filter (send_fails x) (take batchSize (w_clients w)))\<rparr>"
  by (simp add: broadcast_w_def broadcast_def Let_def sendBatch_successCount
        sendBatch_failureCount split: prod.splits)

lemma broadcast_w_snd:
  "snd (broadcast_w m x w)
     = w\<lparr>w_clients := evicted x (w_clients w) (w_clients w),
         w_sent := w_sent w @ map (\<lambda>e. (handle (fst e), m)) (filter (receives x) (w_clients w))\<rparr>"
  by (simp add: broadcast_w_def broadcast_def Let_def processBatches_sendBatch
        sendBatch_f_clients sendBatch_delivered split: prod.splits)

lemma broadcast_w_clients [simp]:
  "w_clients (snd (broadcast_w m x w)) = evicted x (w_clients w) (w_clients w)"
  by (simp add: broadcast_w_snd)

lemma sales_update_row_Inr:
  assumes "sales_update_row now nid k OLD NEW d = Inr (r, d')"
  shows "version r = version OLD + 1" and "updated_at r = now"
    and "sales d' = (sales d)(k \<mapsto> r)"
    and "devices d' = devices d" and "sync_log d' = sync_log d"
    and "r = NEW\<lparr>sync_status := sync_status r, updated_at := now, version := version OLD + 1\<rparr>"
    and "sales_checks r"
  using assms
  by (auto simp: sales_update_row_def detect_conflicts_def update_updated_at_column_def Let_def
           split: sum.splits if_splits prod.splits)

lemma put_check_Inr:
  assumes "put_check ident body d = Inr cur"
  shows "sales d ident = Some cur" and "\<not> is_deleted cur" and "truthy_str (u_device_id body)"
  using assms by (auto simp: put_check_def split: option.splits if_splits)





lemma put_sale_stale_version:
  assumes "truthy_str (u_device_id body)" and "ident \<noteq> []" and "\<not> parseInt_isNaN ident"
    and "sales (w_db w) ident = Some r" and "\<not> is_deleted r"
    and "u_version body = Some v" and "v \<noteq> 0" and "v \<noteq> version r"
  shows "put_sale e ident body w = (Version_conflict (version r) v r, w)"
  using assms by (simp add: put_sale_def put_check_def truthy_num_def)












lemma registerDevice_sales [simp]: "sales (registerDevice now dev n t d) = sales d"
  by (simp add: registerDevice_def)


lemma on_message_sales [simp]:
  "sales (w_db (on_message now s cid msg w)) = sales (w_db w)"
  by (cases msg)
     (auto simp: on_message_def message_try_def ws_send_def Let_def case_prod_beta
           split: option.splits if_splits)







lemmas example_defs =
  world1_def store1_def sale1_def sale1_id_def new_sale_row_def update_by_def env_at_def

lemmas update_defs =
  put_sale_def put_check_def put_write_def put_assign_def sales_update_row_def
  detect_conflicts_def update_updated_at_column_def sales_checks_def sql_ne_def
  truthy_str_def truthy_num_def parseInt_isNaN_def js_space_def

text \<open>
  Claim C1, at the input where the code departs from it. The stored sale has version 1
  and device dev-B sends an update with expected version 0, which is the current version
  minus one. The handler tests \<^verbatim>\<open>version && currentSale.version !== version\<close>; 0 is falsy,
  the check is skipped, and the update is applied: the answer is 200 with the new row
  and the stored row is overwritten. For every expected version other than 0 that
  differs from the current one the handler answers 409 and changes nothing
  (lemma \<open>put_sale_stale_version\<close>).
\<close>

theorem stale_version_zero_overwrites:
  "version sale1 = 1
   \<and> fst (put_sale (env_at 2000 ''c1'') sale1_id (update_by ''dev-B'' ''Mallory'' (Some 0)) world1)
       = Updated (sale1\<lparr>customer := ''Mallory'', device_id := Some ''dev-B'',
                        sync_status := Conflict, updated_at := 2000, version := 2\<rparr>) False 0
   \<and> sales (w_db (snd (put_sale (env_at 2000 ''c1'') sale1_id
                          (update_by ''dev-B'' ''Mallory'' (Some 0)) world1))) sale1_id
       = Some (sale1\<lparr>customer := ''Mallory'', device_id := Some ''dev-B'',
                       sync_status := Conflict, updated_at := 2000, version := 2\<rparr>)"
  by (simp add: example_defs update_defs Let_def case_prod_beta)


text \<open>
  Claim C2, at the input where the code departs from it. The sale was last written by
  dev-A at version 1; dev-B sends an ordinary update carrying version 1, the version it
  read. The update succeeds, and the trigger records a conflict between dev-A and dev-B
  and marks the row \<^verbatim>\<open>conflict\<close>. By lemma \<open>put_conflict_iff_other_device\<close> this happens
  on every successful update by a device other than the last writer.
\<close>

theorem sequential_update_records_conflict:
  "u_version (update_by ''dev-B'' ''Mallory'' (Some 1)) = Some (version sale1)
   \<and> conflicts (w_db world1) = []
   \<and> http_status (fst (put_sale (env_at 2000 ''c1'') sale1_id
                          (update_by ''dev-B'' ''Mallory'' (Some 1)) world1)) = Some 200
   \<and> map (\<lambda>c. (c_id c, record_id c, device_id_1 c, device_id_2 c, is_resolved c))
         (conflicts (w_db world2)) = [(''c1'', sale1_id, ''dev-A'', ''dev-B'', False)]
   \<and> map_option sync_status (sales (w_db world2) sale1_id) = Some Conflict"
  by (simp add: world2_def example_defs update_defs Let_def case_prod_beta)

text \<open>
  Claim C3, at the schedule where the code departs from it. Devices dev-B and dev-C both
  send an update with expected version 1 of a sale at version 1. When the two SELECTs
  are answered before the two UPDATEs run, both requests get 200 and the update of
  dev-B is overwritten by that of dev-C, written against version 2; run one after the
  other, the second request gets 409. The version check and the write are two store
  calls, not one atomic step.
\<close>

theorem interleaved_updates_lose_the_version_check:
  "u_version (update_by ''dev-B'' ''Bob'' (Some 1)) = Some (version sale1)
   \<and> u_version (update_by ''dev-C'' ''Carol'' (Some 1)) = Some (version sale1)
   \<and> http_status (fst race1) = Some 200
   \<and> http_status (fst (snd race1)) = Some 200
   \<and> map_option (\<lambda>r. (customer r, version r)) (sales (w_db (snd (snd race1))) sale1_id)
       = Some (''Carol'', 3)
   \<and> http_status (fst (put_sale (env_at 2001 ''c2'') sale1_id (update_by ''dev-C'' ''Carol'' (Some 1))
                          (snd (put_sale (env_at 2000 ''c1'') sale1_id
                                  (update_by ''dev-B'' ''Bob'' (Some 1)) world1)))) = Some 409"
  by (simp add: race1_def put_sale_interleaved_def example_defs update_defs Let_def case_prod_beta)





lemma sales_checks_cong:
  "quantity a = quantity b \<Longrightarrow> price a = price b \<Longrightarrow> total a = total b
   \<Longrightarrow> payment_status a = payment_status b \<Longrightarrow> amount_received a = amount_received b
   \<Longrightarrow> sales_checks a = sales_checks b"
  by (simp add: sales_checks_def)

lemma sales_checks_latest:
  "sales_checks (data_1 c) \<Longrightarrow> sales_checks (data_2 c) \<Longrightarrow> sales_checks (latest_of c)"
  by (simp add: latest_of_def)

lemma find_c_id:
  "find (\<lambda>c. c_id c = cid) cs = Some c \<Longrightarrow> c \<in> set cs \<and> c_id c = cid"
  by (induction cs) (auto split: if_splits)

lemma find_map_stamp:
  "find (\<lambda>c. c_id c = cid) (map (\<lambda>c. if c_id c = cid then stamp_resolved now ch c else c) cs)
     = map_option (stamp_resolved now ch) (find (\<lambda>c. c_id c = cid) cs)"
  by (induction cs) (auto simp: stamp_resolved_def)

lemma resolve_success:
  assumes f: "find (\<lambda>c. c_id c = cid) (conflicts d) = Some c"
    and r: "sales d (record_id c) = Some r"
    and chk: "sales_checks (latest_of c)"
  shows "resolve_conflict_last_write_wins now nid cid d
         = Inr (True, d\<lparr>sales := (sales d)(record_id c \<mapsto> overwrite_from now (latest_of c) r),
                        conflicts := map (\<lambda>c'. if c_id c' = cid
                                                 then stamp_resolved now (latest_of c) c' else c')
                                         (conflicts d)\<rparr>)"
proof -
  let ?NEW = "r\<lparr>product := product (latest_of c), quantity := quantity (latest_of c),
                 price := price (latest_of c), total := total (latest_of c),
                 customer := customer (latest_of c), notes_col := notes_col (latest_of c),
                 payment_status := payment_status (latest_of c),
                 payment_method := payment_method (latest_of c),
                 amount_received := amount_received (latest_of c), sync_status := Synced\<rparr>"
  let ?cs = "map (\<lambda>c'. if c_id c' = cid then stamp_resolved now (latest_of c) c' else c') (conflicts d)"
  have nodiff: "\<not> sql_ne (device_id r) (device_id ?NEW)"
    by (simp add: sql_ne_def split: option.splits)
  have dc: "detect_conflicts now nid r ?NEW ?cs = Inr (?NEW, ?cs)"
    using nodiff by (simp add: detect_conflicts_def)
  have n2: "update_updated_at_column now r ?NEW = overwrite_from now (latest_of c) r"
    by (simp add: update_updated_at_column_def overwrite_from_def)
  have ok: "sales_checks (overwrite_from now (latest_of c) r)"
    using chk sales_checks_cong[of "overwrite_from now (latest_of c) r" "latest_of c"]
    by (simp add: overwrite_from_def)
  have up: "sales_update_row now nid (record_id c) r ?NEW (d\<lparr>conflicts := ?cs\<rparr>)
          = Inr (overwrite_from now (latest_of c) r,
                 d\<lparr>sales := (sales d)(record_id c \<mapsto> overwrite_from now (latest_of c) r),
                   conflicts := ?cs\<rparr>)"
    using dc n2 ok by (simp add: sales_update_row_def Let_def)
  have st: "(\<lambda>ca. if c_id ca = cid
                  then ca\<lparr>resolution_data := Some (latest_of c),
                          resolution_strategy := Some ''last_write_wins'',
                          resolved_at := Some now, is_resolved := True\<rparr>
                  else ca)
            = (\<lambda>c'. if c_id c' = cid then stamp_resolved now (latest_of c) c' else c')"
    by (simp add: stamp_resolved_def cong: if_cong)
  show ?thesis
    by (simp add: resolve_conflict_last_write_wins_def Let_def f r st up)
qed

lemma store_ok_conflict:
  assumes "store_ok d" and "find (\<lambda>c. c_id c = cid) (conflicts d) = Some c"
  shows "sales_checks (latest_of c)" and "\<exists>r. sales d (record_id c) = Some r"
proof -
  from find_c_id[OF assms(2)] have "c \<in> set (conflicts d)" by simp
  with assms(1) have a: "sales_checks (data_1 c)" "sales_checks (data_2 c)"
    "sales d (record_id c) \<noteq> None"
    unfolding store_ok_def by blast+
  from a(1,2) show "sales_checks (latest_of c)" by (rule sales_checks_latest)
  from a(3) show "\<exists>r. sales d (record_id c) = Some r" by auto
qed

lemma post_conflict_resolve_ok:
  assumes f: "find (\<lambda>c. c_id c = cid) (conflicts (w_db w)) = Some c"
    and r: "sales (w_db w) (record_id c) = Some r"
    and chk: "sales_checks (latest_of c)"
    and s: "strategy = None \<or> strategy = Some ''last_write_wins''"
  shows "post_conflict_resolve e cid strategy w
         = (Conflict_resolved,
            w\<lparr>w_db := (w_db w)\<lparr>sales := (sales (w_db w))
                                    (record_id c \<mapsto> overwrite_from (e_now e) (latest_of c) r),
                               conflicts := map (\<lambda>c'. if c_id c' = cid
                                                 then stamp_resolved (e_now e) (latest_of c) c' else c')
                                               (conflicts (w_db w))\<rparr>\<rparr>)"
  using s resolve_success[OF f r chk, of "e_now e" "e_uuid e"]
  by (auto simp: post_conflict_resolve_def Let_def)

lemma latest_of_stamp [simp]: "latest_of (stamp_resolved now ch c) = latest_of c"
  by (simp add: latest_of_def stamp_resolved_def)

lemma record_id_stamp [simp]: "record_id (stamp_resolved now ch c) = record_id c"
  by (simp add: stamp_resolved_def)

lemma overwrite_twice:
  "overwrite_from now2 ch (overwrite_from now1 ch r)
     = (overwrite_from now1 ch r)\<lparr>updated_at := now2,
                                   version := version (overwrite_from now1 ch r) + 1\<rparr>"
  by (simp add: overwrite_from_def)

lemma stamp_twice:
  "map (\<lambda>c'. if c_id c' = cid then stamp_resolved now2 ch c' else c')
     (map (\<lambda>c'. if c_id c' = cid then stamp_resolved now1 ch c' else c') cs)
   = map (\<lambda>c'. if c_id c' = cid then c'\<lparr>resolved_at := Some now2\<rparr> else c')
       (map (\<lambda>c'. if c_id c' = cid then stamp_resolved now1 ch c' else c') cs)"
  by (induction cs) (auto simp: stamp_resolved_def)


text \<open>
  Claim C5, as amended. In a well-formed store, resolving a conflict a second time
  succeeds and chooses the same snapshot as the first time. It leaves the conflict row
  as the first resolution left it except for \<^verbatim>\<open>resolved_at\<close>, which becomes the time of
  the second call, and the live row as the first resolution left it except for
  \<^verbatim>\<open>updated_at\<close>, which becomes that time, and the version, which goes up by one again.
\<close>

theorem second_resolution_restamps:
  assumes "store_ok (w_db w)"
    and "find (\<lambda>c. c_id c = cid) (conflicts (w_db w)) = Some c"
  shows "\<exists>r1 c1. sales (w_db (snd (post_conflict_resolve e1 cid (Some ''last_write_wins'') w)))
                   (record_id c) = Some r1
           \<and> find (\<lambda>c. c_id c = cid)
                (conflicts (w_db (snd (post_conflict_resolve e1 cid (Some ''last_write_wins'') w))))
               = Some c1
           \<and> resolution_data c1
               = Some (if updated_at (data_1 c) > updated_at (data_2 c) then data_1 c else data_2 c)
           \<and> post_conflict_resolve e2 cid (Some ''last_write_wins'')
                (snd (post_conflict_resolve e1 cid (Some ''last_write_wins'') w))
             = (Conflict_resolved,
                (snd (post_conflict_resolve e1 cid (Some ''last_write_wins'') w))
                \<lparr>w_db := (w_db (snd (post_conflict_resolve e1 cid (Some ''last_write_wins'') w)))
                   \<lparr>sales := (sales (w_db (snd (post_conflict_resolve e1 cid (Some ''last_write_wins'') w))))
                       (record_id c \<mapsto> r1\<lparr>updated_at := e_now e2, version := version r1 + 1\<rparr>),
                    conflicts := map (\<lambda>c'. if c_id c' = cid
                                      then c'\<lparr>resolved_at := Some (e_now e2)\<rparr> else c')
                                  (conflicts (w_db (snd (post_conflict_resolve e1 cid
                                                           (Some ''last_write_wins'') w))))\<rparr>\<rparr>)"
proof -
  let ?L = "latest_of c"
  let ?S = "Some ''last_write_wins''"
  from store_ok_conflict[OF assms] obtain r where
    chk: "sales_checks ?L" and r: "sales (w_db w) (record_id c) = Some r" by blast
  define w1 where "w1 = snd (post_conflict_resolve e1 cid ?S w)"
  define r1 where "r1 = overwrite_from (e_now e1) ?L r"
  define c1 where "c1 = stamp_resolved (e_now e1) ?L c"
  have first: "w1 = w\<lparr>w_db := (w_db w)\<lparr>sales := (sales (w_db w))(record_id c \<mapsto> r1),
                   conflicts := map (\<lambda>c'. if c_id c' = cid
                                           then stamp_resolved (e_now e1) ?L c' else c')
                                  (conflicts (w_db w))\<rparr>\<rparr>"
    unfolding w1_def r1_def
    by (subst post_conflict_resolve_ok[OF assms(2) r chk]) simp_all
  have s1: "sales (w_db w1) (record_id c) = Some r1" by (simp add: first)
  have f1: "find (\<lambda>c. c_id c = cid) (conflicts (w_db w1)) = Some c1"
    by (simp add: first find_map_stamp assms(2) c1_def)
  have chk1: "sales_checks (latest_of c1)" using chk by (simp add: c1_def)
  have rd: "resolution_data c1 = Some ?L" by (simp add: c1_def stamp_resolved_def)
  have s1': "sales (w_db w1) (record_id c1) = Some r1" using s1 by (simp add: c1_def)
  have second: "post_conflict_resolve e2 cid ?S w1
         = (Conflict_resolved,
            w1\<lparr>w_db := (w_db w1)\<lparr>sales := (sales (w_db w1))
                                    (record_id c1 \<mapsto> overwrite_from (e_now e2) (latest_of c1) r1),
                               conflicts := map (\<lambda>c'. if c_id c' = cid
                                                 then stamp_resolved (e_now e2) (latest_of c1) c' else c')
                                               (conflicts (w_db w1))\<rparr>\<rparr>)"
    by (rule post_conflict_resolve_ok[OF f1 s1' chk1]) simp
  have o2: "overwrite_from (e_now e2) (latest_of c1) r1
            = r1\<lparr>updated_at := e_now e2, version := version r1 + 1\<rparr>"
    unfolding r1_def c1_def latest_of_stamp by (rule overwrite_twice)
  have cw1: "conflicts (w_db w1)
             = map (\<lambda>c'. if c_id c' = cid then stamp_resolved (e_now e1) ?L c' else c')
                 (conflicts (w_db w))"
    by (simp add: first)
  have m2: "map (\<lambda>c'. if c_id c' = cid then stamp_resolved (e_now e2) (latest_of c1) c' else c')
              (conflicts (w_db w1))
          = map (\<lambda>c'. if c_id c' = cid then c'\<lparr>resolved_at := Some (e_now e2)\<rparr> else c')
              (conflicts (w_db w1))"
    unfolding c1_def latest_of_stamp cw1 by (rule stamp_twice)
  have "post_conflict_resolve e2 cid ?S w1
         = (Conflict_resolved,
            w1\<lparr>w_db := (w_db w1)\<lparr>sales := (sales (w_db w1))
                                    (record_id c \<mapsto> r1\<lparr>updated_at := e_now e2, version := version r1 + 1\<rparr>),
                               conflicts := map (\<lambda>c'. if c_id c' = cid
                                                 then c'\<lparr>resolved_at := Some (e_now e2)\<rparr> else c')
                                               (conflicts (w_db w1))\<rparr>\<rparr>)"
    using second unfolding o2 m2 by (simp add: c1_def)
  with s1 f1 rd show ?thesis unfolding w1_def latest_of_def by blast
qed

lemma store_ok_cong:
  "sales d' = sales d \<Longrightarrow> conflicts d' = conflicts d \<Longrightarrow> store_ok d' = store_ok d"
  by (simp add: store_ok_def)

lemma store_ok_empty: "store_ok empty_store"
  by (simp add: store_ok_def empty_store_def)

lemma store_ok_update_row:
  assumes ok: "store_ok d" and old: "sales d k = Some OLD" and idk: "sale_id NEW = k"
    and up: "sales_update_row now nid k OLD NEW d = Inr (r, d')"
  shows "store_ok d'"
proof -
  from sales_update_row_Inr[OF up] have
    s: "sales d' = (sales d)(k \<mapsto> r)" and
    r: "r = NEW\<lparr>sync_status := sync_status r, updated_at := now, version := version OLD + 1\<rparr>" and
    chk: "sales_checks r" by simp_all
  have idr: "sale_id r = k" by (subst r) (simp add: idk)
  have "sales_checks r = sales_checks NEW" by (subst r) (simp add: sales_checks_def)
  with chk have chkN: "sales_checks NEW" by simp
  from ok old have chkO: "sales_checks OLD" unfolding store_ok_def by blast
  have rows: "\<forall>k' r'. sales d' k' = Some r' \<longrightarrow> sale_id r' = k' \<and> sales_checks r'"
    using ok idr chk unfolding store_ok_def s by auto
  from up have cs: "conflicts d' = conflicts d
      \<or> (\<exists>c. conflicts d' = conflicts d @ [c] \<and> data_1 c = OLD \<and> data_2 c = NEW \<and> record_id c = sale_id NEW)"
    by (auto simp: sales_update_row_def detect_conflicts_def Let_def split: if_splits sum.splits)
  have keep: "sales d x \<noteq> None \<Longrightarrow> sales d' x \<noteq> None" for x by (simp add: s)
  have confl: "\<forall>c\<in>set (conflicts d'). sales_checks (data_1 c) \<and> sales_checks (data_2 c)
                  \<and> sales d' (record_id c) \<noteq> None"
  proof
    fix c assume c: "c \<in> set (conflicts d')"
    from cs show "sales_checks (data_1 c) \<and> sales_checks (data_2 c) \<and> sales d' (record_id c) \<noteq> None"
    proof
      assume "conflicts d' = conflicts d"
      with c ok keep show ?thesis unfolding store_ok_def by auto
    next
      assume "\<exists>c. conflicts d' = conflicts d @ [c] \<and> data_1 c = OLD \<and> data_2 c = NEW \<and> record_id c = sale_id NEW"
      then obtain c0 where c0: "conflicts d' = conflicts d @ [c0]" "data_1 c0 = OLD" "data_2 c0 = NEW"
        "record_id c0 = sale_id NEW" by blast
      from c c0(1) have "c \<in> set (conflicts d) \<or> c = c0" by auto
      then show ?thesis
      proof
        assume "c \<in> set (conflicts d)"
        with ok keep show ?thesis unfolding store_ok_def by auto
      next
        assume "c = c0"
        with c0 chkO chkN idk show ?thesis by (simp add: s)
      qed
    qed
  qed
  from rows confl show ?thesis unfolding store_ok_def by blast
qed

lemma store_ok_key: "store_ok d \<Longrightarrow> sales d k = Some r \<Longrightarrow> sale_id r = k"
  unfolding store_ok_def by blast

lemma store_ok_insert:
  assumes "store_ok d" and "sales_insert row d = Inr (r, d')"
  shows "store_ok d'"
  using assms unfolding store_ok_def
  by (auto simp: sales_insert_def split: if_splits)

lemma store_ok_soft_delete:
  assumes "store_ok d" and "soft_delete_sale now nid k dev d = Inr (b, d')"
  shows "store_ok d'"
proof (cases "sales d k")
  case None
  with assms show ?thesis by (simp add: soft_delete_sale_def)
next
  case (Some old)
  show ?thesis
  proof (cases "is_deleted old")
    case True
    with assms Some show ?thesis by (simp add: soft_delete_sale_def)
  next
    case False
    let ?NEW = "old\<lparr>is_deleted := True, deleted_at := Some now, device_id := Some dev,
                     sync_status := Pending\<rparr>"
    from assms(2) Some False obtain r where
      up: "sales_update_row now nid k old ?NEW d = Inr (r, d')"
      by (auto simp: soft_delete_sale_def split: sum.splits)
    have "sale_id ?NEW = k" using store_ok_key[OF assms(1) Some] by simp
    from store_ok_update_row[OF assms(1) Some this up] show ?thesis .
  qed
qed

lemma store_ok_stamp:
  "store_ok d \<Longrightarrow> store_ok (d\<lparr>conflicts := map (\<lambda>c'. if c_id c' = cid
                                       then stamp_resolved now ch c' else c') (conflicts d)\<rparr>)"
  unfolding store_ok_def by (auto simp: stamp_resolved_def)

lemma store_ok_resolve:
  assumes ok: "store_ok d" and res: "resolve_conflict_last_write_wins now nid cid d = Inr (b, d')"
  shows "store_ok d'"
proof (cases "find (\<lambda>c. c_id c = cid) (conflicts d)")
  case None
  with assms show ?thesis by (simp add: resolve_conflict_last_write_wins_def)
next
  case (Some c)
  from store_ok_conflict[OF ok Some] obtain r where
    chk: "sales_checks (latest_of c)" and r: "sales d (record_id c) = Some r" by blast
  from resolve_success[OF Some r chk, of now nid] res
  have d': "d' = d\<lparr>sales := (sales d)(record_id c \<mapsto> overwrite_from now (latest_of c) r),
                   conflicts := map (\<lambda>c'. if c_id c' = cid
                                           then stamp_resolved now (latest_of c) c' else c')
                                  (conflicts d)\<rparr>" by simp
  have k: "sale_id (overwrite_from now (latest_of c) r) = record_id c"
    using store_ok_key[OF ok r] by (simp add: overwrite_from_def)
  have c2: "sales_checks (overwrite_from now (latest_of c) r)"
    using chk sales_checks_cong[of "overwrite_from now (latest_of c) r" "latest_of c"]
    by (simp add: overwrite_from_def)
  from store_ok_stamp[OF ok, of cid now "latest_of c"] k c2 show ?thesis
    unfolding d' store_ok_def by auto
qed

lemma store_ok_mark_rows:
  "store_ok d \<Longrightarrow> mark_rows now nid ids d = Inr (n, d') \<Longrightarrow> store_ok d'"
proof (induction ids arbitrary: d n)
  case Nil
  then show ?case by simp
next
  case (Cons i ids)
  show ?case
  proof (cases "sales d i")
    case None
    with Cons show ?thesis by simp
  next
    case (Some old)
    with Cons.prems(2) obtain r d1 n1 where
      u: "sales_update_row now nid i old (old\<lparr>sync_status := Synced, last_sync_at := Some now\<rparr>) d = Inr (r, d1)"
      and m: "mark_rows now nid ids d1 = Inr (n1, d')"
      by (auto split: sum.splits)
    have "sale_id (old\<lparr>sync_status := Synced, last_sync_at := Some now\<rparr>) = i"
      using store_ok_key[OF Cons.prems(1) Some] by simp
    from store_ok_update_row[OF Cons.prems(1) Some this u] have "store_ok d1" .
    from Cons.IH[OF this m] show ?thesis .
  qed
qed

lemma store_ok_sync_ops:
  "store_ok d \<Longrightarrow> sync_ops now dev uuids k ops d = Inr (rs, d') \<Longrightarrow> store_ok d'"
proof (induction now dev uuids k ops d arbitrary: rs rule: sync_ops.induct)
  case (1 now dev uuids k d)
  then show ?case by simp
next
  case (2 now dev uuids k dat rest d)
  from "2.prems"(2) obtain row d1 rs1 where
    i: "sales_insert (new_sale_row now (uuids k)
                     (if truthy_str (n_product dat) then the (n_product dat) else ''Bananas'')
                     (the (n_quantity dat)) (the (n_price dat)) (the (n_total dat))
                     (the (n_customer dat))
                     (if truthy_str (n_notes dat) then n_notes dat else Some [])
                     (if truthy_str (n_payment_status dat) then the (n_payment_status dat) else ''pending'')
                     (if truthy_str (n_payment_method dat) then n_payment_method dat else Some [])
                     (if truthy_num (n_amount_received dat) then n_amount_received dat else Some 0)
                     (Some dev)) d = Inr (row, d1)"
    and nn: "\<not> (n_quantity dat = None \<or> n_price dat = None \<or> n_total dat = None \<or> n_customer dat = None)"
    and r: "sync_ops now dev uuids (Suc k) rest d1 = Inr (rs1, d')"
    by (auto split: if_splits sum.splits)
  from "2.IH"[OF nn i refl store_ok_insert[OF "2.prems"(1) i] r] show ?case .
next
  case (3 now dev uuids k rest d)
  then show ?case by simp
next
  case (4 now dev uuids k i rest d)
  from "4.prems"(2) obtain b d1 rs1 where
    s: "soft_delete_sale now (uuids k) i dev d = Inr (b, d1)"
    and r: "sync_ops now dev uuids (Suc k) rest d1 = Inr (rs1, d')"
    by (auto split: sum.splits)
  from "4.IH"[OF s refl store_ok_soft_delete[OF "4.prems"(1) s] r] show ?case .
next
  case (5 now dev uuids k rest d)
  then show ?case by simp
qed

lemma store_ok_log [simp]:
  "store_ok (snd (logSyncOperation e dev op tbl rid old new d)) = store_ok d"
  by (rule store_ok_cong) simp_all

lemma store_ok_registerDevice [simp]:
  "store_ok (registerDevice now dev n t d) = store_ok d"
  by (rule store_ok_cong) (simp_all add: registerDevice_def)

lemma store_ok_post_sale:
  assumes "store_ok (w_db w)"
  shows "store_ok (w_db (snd (post_sale e body w)))"
proof -
  let ?d1 = "registerDevice (e_now e) (the (n_device_id body)) None None (w_db w)"
  let ?row = "new_sale_row (e_now e) (e_uuid e)
             (case n_product body of None \<Rightarrow> ''Bananas'' | Some x \<Rightarrow> x)
             (the (n_quantity body)) (the (n_price body))
             (the (n_total body)) (the (n_customer body))
             (case n_notes body of None \<Rightarrow> Some [] | Some x \<Rightarrow> Some x)
             (case n_payment_status body of None \<Rightarrow> ''pending'' | Some x \<Rightarrow> x)
             (case n_payment_method body of None \<Rightarrow> Some [] | Some x \<Rightarrow> Some x)
             (case n_amount_received body of None \<Rightarrow> Some 0 | Some x \<Rightarrow> Some x)
             (Some (the (n_device_id body)))"
  have ok1: "store_ok ?d1" using assms by simp
  show ?thesis
  proof (cases "sales_insert ?row ?d1")
    case (Inl err)
    with assms ok1 show ?thesis
      by (simp add: post_sale_def Let_def case_prod_beta)
  next
    case (Inr p)
    obtain r d2 where p: "p = (r, d2)" by (cases p)
    from store_ok_insert[OF ok1 Inr[unfolded p]] have "store_ok d2" .
    with assms Inr p show ?thesis
      by (simp add: post_sale_def Let_def case_prod_beta)
  qed
qed

lemma store_ok_put_write:
  assumes "store_ok (w_db w)"
  shows "store_ok (w_db (snd (put_write e ident body cur w)))"
proof (cases "sales (w_db w) ident")
  case None
  with assms show ?thesis by (simp add: put_write_def Let_def case_prod_beta)
next
  case (Some old)
  show ?thesis
  proof (cases "is_deleted old")
    case True
    with assms Some show ?thesis by (simp add: put_write_def Let_def case_prod_beta)
  next
    case False
    show ?thesis
    proof (cases "sales_update_row (e_now e) (e_uuid e) ident old
                    (put_assign (e_now e) body old) (w_db w)")
      case (Inl err)
      with assms Some False show ?thesis by (simp add: put_write_def Let_def case_prod_beta)
    next
      case (Inr p)
      obtain u d1 where p: "p = (u, d1)" by (cases p)
      have "sale_id (put_assign (e_now e) body old) = ident"
        using store_ok_key[OF assms Some] by (simp add: put_assign_def)
      from store_ok_update_row[OF assms Some this Inr[unfolded p]] have "store_ok d1" .
      with Some False Inr p show ?thesis
        by (simp add: put_write_def Let_def case_prod_beta)
    qed
  qed
qed

lemma store_ok_put_sale:
  "store_ok (w_db w) \<Longrightarrow> store_ok (w_db (snd (put_sale e ident body w)))"
  using store_ok_put_write by (auto simp: put_sale_def split: sum.splits)

lemma store_ok_delete_sale:
  assumes "store_ok (w_db w)"
  shows "store_ok (w_db (snd (delete_sale e ident dev w)))"
proof (cases "soft_delete_sale (e_now e) (e_uuid e) ident (the dev) (w_db w)")
  case (Inl err)
  with assms show ?thesis
    by (simp add: delete_sale_def Let_def case_prod_beta split: option.splits)
next
  case (Inr p)
  obtain b d1 where p: "p = (b, d1)" by (cases p)
  from store_ok_soft_delete[OF assms Inr[unfolded p]] have "store_ok d1" .
  with assms Inr p show ?thesis
    by (simp add: delete_sale_def Let_def case_prod_beta split: option.splits)
qed

lemma store_ok_post_conflict_resolve:
  assumes "store_ok (w_db w)"
  shows "store_ok (w_db (snd (post_conflict_resolve e ident st w)))"
proof (cases "resolve_conflict_last_write_wins (e_now e) (e_uuid e) ident (w_db w)")
  case (Inl err)
  with assms show ?thesis by (simp add: post_conflict_resolve_def Let_def)
next
  case (Inr p)
  obtain b d1 where p: "p = (b, d1)" by (cases p)
  from store_ok_resolve[OF assms Inr[unfolded p]] have "store_ok d1" .
  with assms Inr p show ?thesis by (simp add: post_conflict_resolve_def Let_def)
qed

lemma store_ok_mark_synced:
  assumes "store_ok (w_db w)"
  shows "store_ok (w_db (snd (mark_synced e ids w)))"
proof (cases "mark_rows (e_now e) (e_uuid e) (remdups ids) (w_db w)")
  case (Inl err)
  with assms show ?thesis by (simp add: mark_synced_def)
next
  case (Inr p)
  obtain n d1 where p: "p = (n, d1)" by (cases p)
  from store_ok_mark_rows[OF assms Inr[unfolded p]] have "store_ok d1" .
  with assms Inr p show ?thesis by (simp add: mark_synced_def)
qed

lemma store_ok_post_sync:
  assumes "store_ok (w_db w)"
  shows "store_ok (w_db (snd (post_sync now uuids dev ops w)))"
proof (cases "sync_ops now (the dev) uuids 0 (the ops) (w_db w)")
  case (Inl err)
  with assms show ?thesis by (simp add: post_sync_def)
next
  case (Inr p)
  obtain rs d1 where p: "p = (rs, d1)" by (cases p)
  from store_ok_sync_ops[OF assms Inr[unfolded p]] have "store_ok d1" .
  with assms Inr p show ?thesis by (simp add: post_sync_def)
qed

lemma on_message_conflicts [simp]:
  "conflicts (w_db (on_message now s cid msg w)) = conflicts (w_db w)"
  by (cases msg)
     (auto simp: on_message_def message_try_def ws_send_def Let_def case_prod_beta registerDevice_def
           split: option.splits if_splits)

lemma store_ok_on_message:
  "store_ok (w_db (on_message now s cid msg w)) = store_ok (w_db w)"
  by (rule store_ok_cong) simp_all

lemma store_ok_handle_call:
  "store_ok (w_db w) \<Longrightarrow> store_ok (w_db (handle_call c w))"
  by (cases c)
     (simp_all add: store_ok_post_sale store_ok_put_sale store_ok_delete_sale
        store_ok_post_conflict_resolve store_ok_mark_synced store_ok_post_sync
        store_ok_on_message)

text \<open>Every store that a history of requests makes from a well-formed one is well formed.\<close>

lemma store_ok_run_calls:
  "store_ok (w_db w) \<Longrightarrow> store_ok (w_db (run_calls calls w))"
proof (induction calls arbitrary: w)
  case Nil
  then show ?case by (simp add: run_calls_def)
next
  case (Cons c calls)
  have "run_calls (c # calls) w = run_calls calls (handle_call c w)"
    by (simp add: run_calls_def)
  with Cons.IH[OF store_ok_handle_call[OF Cons.prems]] show ?case by simp
qed

lemma store_ok_reachable: "store_ok (w_db (run_calls calls empty_world))"
  by (rule store_ok_run_calls) (simp add: empty_world_def store_ok_empty)

text \<open>The example store is the one the create request \<open>order0\<close> makes from the empty one.\<close>

lemma world1_reachable:
  "post_sale (env_at 1000 sale1_id) order0 empty_world = (Created sale1 False 0, world1)"
  by (simp add: post_sale_def order0_def empty_world_def empty_store_def world1_def store1_def
        sale1_def env_at_def truthy_num_def truthy_str_def Let_def case_prod_beta
        sales_insert_def sales_checks_def new_sale_row_def registerDevice_def register_device_def
        logSyncOperation_def sync_log_insert_def broadcast_w_def broadcast_def sendBatch_def
        processBatches.simps)

lemma store_ok_world1: "store_ok (w_db world1)"
  by (simp add: store_ok_def world1_def store1_def sale1_def new_sale_row_def sales_checks_def)

lemma store_ok_world2: "store_ok (w_db world2)"
  unfolding world2_def by (rule store_ok_put_sale[OF store_ok_world1])

lemma world2_db:
  "w_db world2 = store1\<lparr>sales := [sale1_id \<mapsto> sale1_b], conflicts := [conflict1]\<rparr>"
  by (simp add: world2_def sale1_b_def conflict1_def example_defs update_defs Let_def case_prod_beta
        logSyncOperation_upper_case)

lemma world2_conflict:
  "find (\<lambda>c. c_id c = ''c1'') (conflicts (w_db world2)) = Some conflict1"
  by (simp add: world2_db conflict1_def)

lemma world3_db:
  "w_db world3 = store1\<lparr>sales := [sale1_id \<mapsto> overwrite_from 3000 (data_2 conflict1) sale1_b],
                         conflicts := [stamp_resolved 3000 (data_2 conflict1) conflict1]\<rparr>"
proof -
  have r: "sales (w_db world2) (record_id conflict1) = Some sale1_b"
    by (simp add: world2_db conflict1_def)
  have l: "latest_of conflict1 = data_2 conflict1"
    by (simp add: latest_of_def conflict1_def sale1_def new_sale_row_def)
  have chk: "sales_checks (latest_of conflict1)"
    by (rule store_ok_conflict(1)[OF store_ok_world2 world2_conflict])
  have rid: "record_id conflict1 = sale1_id" and cid: "c_id conflict1 = ''c1''"
    by (simp_all add: conflict1_def)
  show ?thesis
    unfolding world3_def
    by (subst post_conflict_resolve_ok[OF world2_conflict r chk])
       (simp_all add: l world2_db rid cid env_at_def)
qed


text \<open>
  Counterexample to C5 as stated: after conflict c1 has been resolved at time 3000,
  resolving it again at time 4000 moves the live row from version 3 to version 4 and
  the conflict's \<^verbatim>\<open>resolved_at\<close> from 3000 to 4000.
\<close>

theorem second_resolution_counterexample:
  "world3 = snd (post_conflict_resolve (env_at 3000 ''c2'') ''c1'' (Some ''last_write_wins'') world2)
   \<and> fst (post_conflict_resolve (env_at 4000 ''c3'') ''c1'' (Some ''last_write_wins'') world3)
       = Conflict_resolved
   \<and> map_option version (sales (w_db world3) sale1_id) = Some 3
   \<and> map_option version
        (sales (w_db (snd (post_conflict_resolve (env_at 4000 ''c3'') ''c1''
                             (Some ''last_write_wins'') world3))) sale1_id) = Some 4
   \<and> map resolved_at (conflicts (w_db world3)) = [Some 3000]
   \<and> map resolved_at
        (conflicts (w_db (snd (post_conflict_resolve (env_at 4000 ''c3'') ''c1''
                                 (Some ''last_write_wins'') world3)))) = [Some 4000]"
proof -
  let ?c = "stamp_resolved 3000 (data_2 conflict1) conflict1"
  let ?r = "overwrite_from 3000 (data_2 conflict1) sale1_b"
  have f: "find (\<lambda>c. c_id c = ''c1'') (conflicts (w_db world3)) = Some ?c"
    by (simp add: world3_db stamp_resolved_def conflict1_def)
  have r: "sales (w_db world3) (record_id ?c) = Some ?r"
    by (simp add: world3_db stamp_resolved_def conflict1_def)
  have chk: "sales_checks (latest_of ?c)"
    by (simp add: latest_of_def stamp_resolved_def conflict1_def sale1_def new_sale_row_def
          sales_checks_def)
  note step = post_conflict_resolve_ok[OF f r chk, of "Some ''last_write_wins''" "env_at 4000 ''c3''"]
  have a: "fst (post_conflict_resolve (env_at 4000 ''c3'') ''c1'' (Some ''last_write_wins'') world3)
       = Conflict_resolved" by (subst step) simp_all
  have b: "map_option version (sales (w_db world3) sale1_id) = Some 3"
    by (simp add: world3_db overwrite_from_def sale1_b_def)
  have c: "map_option version
        (sales (w_db (snd (post_conflict_resolve (env_at 4000 ''c3'') ''c1''
                             (Some ''last_write_wins'') world3))) sale1_id) = Some 4"
    by (subst step) (simp_all add: world3_db overwrite_from_def sale1_b_def stamp_resolved_def
          conflict1_def env_at_def)
  have d: "map resolved_at (conflicts (w_db world3)) = [Some 3000]"
    by (simp add: world3_db stamp_resolved_def)
  have e: "map resolved_at
        (conflicts (w_db (snd (post_conflict_resolve (env_at 4000 ''c3'') ''c1''
                                 (Some ''last_write_wins'') world3)))) = [Some 4000]"
    by (subst step) (simp_all add: world3_db stamp_resolved_def conflict1_def env_at_def)
  from a b c d e show ?thesis by (simp add: world3_def)
qed

text \<open>
  Witness for C5: conflict c1 of the example store, resolved at time 3000 and again at
  time 4000.
\<close>

theorem second_resolution_restamps_witness:
  "store_ok (w_db world2)
   \<and> find (\<lambda>c. c_id c = ''c1'') (conflicts (w_db world2)) = Some conflict1
   \<and> (\<exists>r1 c1. sales (w_db world3) sale1_id = Some r1
         \<and> find (\<lambda>c. c_id c = ''c1'') (conflicts (w_db world3)) = Some c1
         \<and> resolution_data c1 = Some (data_2 conflict1)
         \<and> sales (w_db (snd (post_conflict_resolve (env_at 4000 ''c3'') ''c1''
                                (Some ''last_write_wins'') world3))) sale1_id
             = Some (r1\<lparr>updated_at := 4000, version := version r1 + 1\<rparr>)
         \<and> conflicts (w_db (snd (post_conflict_resolve (env_at 4000 ''c3'') ''c1''
                                    (Some ''last_write_wins'') world3)))
             = [c1\<lparr>resolved_at := Some 4000\<rparr>])"
proof -
  have lt: "\<not> updated_at (data_1 conflict1) > updated_at (data_2 conflict1)"
    by (simp add: conflict1_def sale1_def new_sale_row_def)
  have rid: "record_id conflict1 = sale1_id" by (simp add: conflict1_def)
  from second_resolution_restamps[OF store_ok_world2 world2_conflict,
         of "env_at 3000 ''c2''" "env_at 4000 ''c3''"]
  obtain r1 c1 where
    a: "sales (w_db world3) sale1_id = Some r1"
    and b: "find (\<lambda>c. c_id c = ''c1'') (conflicts (w_db world3)) = Some c1"
    and c: "resolution_data c1 = Some (data_2 conflict1)"
    and d: "post_conflict_resolve (env_at 4000 ''c3'') ''c1'' (Some ''last_write_wins'') world3
             = (Conflict_resolved,
                world3\<lparr>w_db := (w_db world3)
                   \<lparr>sales := (sales (w_db world3))
                       (sale1_id \<mapsto> r1\<lparr>updated_at := e_now (env_at 4000 ''c3''), version := version r1 + 1\<rparr>),
                    conflicts := map (\<lambda>c'. if c_id c' = ''c1''
                                      then c'\<lparr>resolved_at := Some (e_now (env_at 4000 ''c3''))\<rparr> else c')
                                  (conflicts (w_db world3))\<rparr>\<rparr>)"
    unfolding world3_def[symmetric] rid using lt by auto
  have c1: "c1 = stamp_resolved 3000 (data_2 conflict1) conflict1"
    using b by (simp add: world3_db stamp_resolved_def conflict1_def)
  have s: "sales (w_db (snd (post_conflict_resolve (env_at 4000 ''c3'') ''c1''
                                (Some ''last_write_wins'') world3))) sale1_id
             = Some (r1\<lparr>updated_at := 4000, version := version r1 + 1\<rparr>)"
    by (subst d) (simp add: env_at_def)
  have cs: "conflicts (w_db (snd (post_conflict_resolve (env_at 4000 ''c3'') ''c1''
                                    (Some ''last_write_wins'') world3)))
             = [c1\<lparr>resolved_at := Some 4000\<rparr>]"
    by (subst d) (simp add: env_at_def world3_db c1 stamp_resolved_def conflict1_def)
  from store_ok_world2 world2_conflict a b c s cs show ?thesis by blast
qed


text \<open>
  No UPDATE statement of the server assigns \<^verbatim>\<open>version\<close>, so when the conflict trigger
  fires the new row still carries the old version and the trigger's version test is
  always true: an update records a conflict exactly when the writer is another device.
\<close>

lemma update_conflict_iff_other_device:
  assumes "sales_update_row now nid k OLD NEW d = Inr (r, d')" and "version NEW = version OLD"
  shows "(conflicts d' \<noteq> conflicts d) = sql_ne (device_id OLD) (device_id NEW)"
  using assms
  by (auto simp: sales_update_row_def detect_conflicts_def Let_def split: if_splits sum.splits)

lemma put_conflict_iff_other_device:
  assumes "put_sale e ident body w = (Updated s x n, w')"
    and "sales (w_db w) ident = Some old"
  shows "(conflicts (w_db w') \<noteq> conflicts (w_db w)) = sql_ne (device_id old) (u_device_id body)"
proof (cases "put_check ident body (w_db w)")
  case (Inl res)
  with assms(1) have "res = Updated s x n" by (simp add: put_sale_def)
  with Inl show ?thesis by (auto simp: put_check_def split: option.splits if_splits)
next
  case (Inr cur)
  from put_check_Inr[OF Inr] assms(2) have live: "\<not> is_deleted old" by simp
  from Inr assms(1) have pw: "put_write e ident body cur w = (Updated s x n, w')"
    by (simp add: put_sale_def)
  show ?thesis
  proof (cases "sales_update_row (e_now e) (e_uuid e) ident old
                  (put_assign (e_now e) body old) (w_db w)")
    case (Inl err)
    with pw assms(2) live show ?thesis by (simp add: put_write_def Let_def case_prod_beta)
  next
    case (Inr p)
    obtain u d1 where p: "p = (u, d1)" by (cases p)
    from pw assms(2) live Inr p have c: "conflicts (w_db w') = conflicts d1"
      by (auto simp: put_write_def Let_def case_prod_beta)
    have v: "version (put_assign (e_now e) body old) = version old"
      and dv: "device_id (put_assign (e_now e) body old) = u_device_id body"
      by (simp_all add: put_assign_def)
    from update_conflict_iff_other_device[OF Inr[unfolded p] v] c dv show ?thesis by simp
  qed
qed

end
